theory Spec2Isabelle
  imports Complex_Main "HOL-Library.Multiset" "HOL-Library.Word"
begin

unbundle bit_operations_syntax

section \<open>The collapsed Gibbs sampler for LDA (topics/lda\_gibbs.cpp)\<close>

text \<open>
  The development embeds \<^verbatim>\<open>meta::topics::lda_gibbs\<close> as it is written in
  \<^verbatim>\<open>src/topics/lda_gibbs.cpp\<close>. The class is a record, every member function is a
  function from the record to the updated record, the exception of
  \<^verbatim>\<open>unordered_map::at\<close> is a value of a sum type, and each loop is a recursive
  function. Progress output and logging do not touch the sampler and are left out.

  A finite \<^verbatim>\<open>double\<close> is a real number; rounding and overflow to infinity are not
  modelled. The arguments \<open>\<alpha>\<close>, \<open>\<beta>\<close> and \<open>\<epsilon>\<close> are finite. A computed
  \<^verbatim>\<open>double\<close> is a \<open>real option\<close>, where \<open>None\<close> stands for a value that is not
  finite (an infinity or a NaN): a division by zero and \<^verbatim>\<open>std::lgamma\<close> at a pole
  produce it, and a sum, difference, product or quotient with such an operand is again not
  finite wherever this file computes one.
\<close>

subsection \<open>Data\<close>

type_synonym term_id = nat
type_synonym doc_id = nat
type_synonym topic_id = nat

text \<open>
  Modelled from the spec: the forward index (\<^verbatim>\<open>index/forward_index.h\<close> and
  \<^verbatim>\<open>index/postings_data.h\<close> are not among the sources). It is the read-only
  capability set of section 4.1: \<^verbatim>\<open>docs()\<close>, \<^verbatim>\<open>num_docs()\<close>, the vocabulary
  size, \<^verbatim>\<open>doc_size(d)\<close>, and the postings of a document
  (\<^verbatim>\<open>search_primary(d)->counts()\<close>), a sequence of pairs of a term and its frequency.
  A frequency is a natural number. The queries are pure: the same call gives the same
  answer throughout.
\<close>

record forward_index =
  docs :: "doc_id list"
  num_docs :: nat
  unique_terms :: nat
  doc_size :: "doc_id \<Rightarrow> nat"
  search_primary_counts :: "doc_id \<Rightarrow> (term_id \<times> nat) list"

text \<open>
  The C++ standard library is a parameter of every function that calls it:
  \<^verbatim>\<open>std::discrete_distribution\<close> built from a weight vector and applied to the engine
  (it returns an index and the engine's next state), \<^verbatim>\<open>std::lgamma\<close> (\<open>None\<close>
  where its value is not finite, as at 0), and the state in which \<^verbatim>\<open>rng_.seed\<close>
  leaves the engine. The type \<open>'r\<close> is the state of the engine.
\<close>

record 'r stdlib =
  discrete_distribution :: "real option list \<Rightarrow> 'r \<Rightarrow> nat \<times> 'r"
  lgamma :: "real \<Rightarrow> real option"
  seed :: "nat \<Rightarrow> 'r"

text \<open>
  Modelled from the spec: the data members (\<^verbatim>\<open>topics/lda_gibbs.h\<close> and
  \<^verbatim>\<open>topics/lda_model.h\<close> are not among the sources). The three count tables are
  sparse maps to counts (section 3); this file uses them with \<^verbatim>\<open>at\<close>,
  \<^verbatim>\<open>erase\<close>, \<^verbatim>\<open>find\<close> and \<^verbatim>\<open>operator[]\<close>. A count is a natural number:
  the width of the counter is not in the sources, and a counter never exceeds the number
  of increments made. \<^verbatim>\<open>doc_word_topic_\<close> is indexed with \<^verbatim>\<open>operator[]\<close> on
  keys that were never inserted, so it is a map of maps as well.
\<close>

record 'r lda_gibbs =
  idx :: forward_index
  num_topics :: nat
  num_words :: nat
  alpha :: real
  beta :: real
  rng :: 'r
  topic_term_count :: "topic_id \<rightharpoonup> (term_id \<rightharpoonup> nat)"
  doc_topic_count :: "doc_id \<rightharpoonup> (topic_id \<rightharpoonup> nat)"
  topic_count :: "topic_id \<rightharpoonup> nat"
  doc_word_topic :: "doc_id \<rightharpoonup> (nat \<rightharpoonup> topic_id)"

text \<open>
  \<open>OutOfRange\<close> is the \<^verbatim>\<open>std::out_of_range\<close> of \<^verbatim>\<open>at\<close> on an absent key; a
  function that throws returns the error and no sampler. \<open>ConstructionFailed\<close> is an
  exception of the base class constructor.
\<close>

datatype error = OutOfRange | ConstructionFailed

datatype status = Converged | Exhausted

subsection \<open>Read accessors\<close>

definition count_term :: "term_id \<Rightarrow> topic_id \<Rightarrow> 'r lda_gibbs \<Rightarrow> real" where
  "count_term term topic s =
     (case topic_term_count s topic of
        None \<Rightarrow> 0
      | Some m \<Rightarrow> (case m term of None \<Rightarrow> 0 | Some c \<Rightarrow> real c))"

definition count_topic :: "topic_id \<Rightarrow> 'r lda_gibbs \<Rightarrow> real" where
  "count_topic topic s =
     (case topic_count s topic of None \<Rightarrow> 0 | Some c \<Rightarrow> real c)"

definition count_doc :: "doc_id \<Rightarrow> topic_id \<Rightarrow> 'r lda_gibbs \<Rightarrow> real" where
  "count_doc doc topic s =
     (case doc_topic_count s doc of
        None \<Rightarrow> 0
      | Some m \<Rightarrow> (case m topic of None \<Rightarrow> 0 | Some c \<Rightarrow> real c))"

definition count_doc_size :: "doc_id \<Rightarrow> 'r lda_gibbs \<Rightarrow> real" where
  "count_doc_size doc s = real (doc_size (idx s) doc)"

subsection \<open>Count bookkeeping\<close>

text \<open>
  \<^verbatim>\<open>m[k] += 1\<close> on an unordered map inserts a value-initialised entry when the key
  is absent and then adds one.
\<close>

definition stored :: "('a \<rightharpoonup> nat) \<Rightarrow> 'a \<Rightarrow> nat" where
  "stored m a = (case m a of Some c \<Rightarrow> c | None \<Rightarrow> 0)"

definition plus_one :: "('a \<rightharpoonup> nat) \<Rightarrow> 'a \<Rightarrow> ('a \<rightharpoonup> nat)" where
  "plus_one m a = m(a \<mapsto> stored m a + 1)"

definition inner :: "('a \<rightharpoonup> ('b \<rightharpoonup> 'c)) \<Rightarrow> 'a \<Rightarrow> ('b \<rightharpoonup> 'c)" where
  "inner m a = (case m a of None \<Rightarrow> Map.empty | Some mm \<Rightarrow> mm)"

definition increase_counts ::
  "topic_id \<Rightarrow> term_id \<Rightarrow> doc_id \<Rightarrow> 'r lda_gibbs \<Rightarrow> 'r lda_gibbs" where
  "increase_counts topic term doc s =
     s\<lparr> topic_term_count :=
          (topic_term_count s)(topic \<mapsto> plus_one (inner (topic_term_count s) topic) term),
        doc_topic_count :=
          (doc_topic_count s)(doc \<mapsto> plus_one (inner (doc_topic_count s) doc) topic),
        topic_count := plus_one (topic_count s) topic \<rparr>"

text \<open>
  The body shared by the three blocks of \<^verbatim>\<open>decrease_counts\<close>: a counter equal to
  one is erased, any other is decremented in place. (A stored zero, which the unsigned
  decrement of the source would wrap around, does not occur: see \<open>no_zero\<close> below.)
\<close>

definition drop_one :: "('k \<rightharpoonup> nat) \<Rightarrow> 'k \<Rightarrow> nat \<Rightarrow> ('k \<rightharpoonup> nat)" where
  "drop_one m k c = (if c = 1 then m(k := None) else m(k \<mapsto> c - 1))"

definition decrease_counts ::
  "topic_id \<Rightarrow> term_id \<Rightarrow> doc_id \<Rightarrow> 'r lda_gibbs \<Rightarrow> error + 'r lda_gibbs" where
  "decrease_counts topic term doc s =
     (case topic_term_count s topic of
        None \<Rightarrow> Inl OutOfRange
      | Some tt \<Rightarrow>
     (case tt term of
        None \<Rightarrow> Inl OutOfRange
      | Some tt_count \<Rightarrow>
     (case doc_topic_count s doc of
        None \<Rightarrow> Inl OutOfRange
      | Some dt \<Rightarrow>
     (case dt topic of
        None \<Rightarrow> Inl OutOfRange
      | Some dt_count \<Rightarrow>
     (case topic_count s topic of
        None \<Rightarrow> Inl OutOfRange
      | Some tc \<Rightarrow>
          Inr (s\<lparr> topic_term_count :=
                    (topic_term_count s)(topic \<mapsto> drop_one tt term tt_count),
                  doc_topic_count :=
                    (doc_topic_count s)(doc \<mapsto> drop_one dt topic dt_count),
                  topic_count := drop_one (topic_count s) topic tc \<rparr>))))))"

subsection \<open>Probability and sampler kernel\<close>

definition fdiv :: "real \<Rightarrow> real \<Rightarrow> real option" where
  "fdiv a b = (if b = 0 then None else Some (a / b))"

definition compute_term_topic_probability ::
  "term_id \<Rightarrow> topic_id \<Rightarrow> 'r lda_gibbs \<Rightarrow> real option" where
  "compute_term_topic_probability term topic s =
     fdiv (count_term term topic s + beta s)
          (count_topic topic s + real (num_words s) * beta s)"

definition compute_doc_topic_probability ::
  "doc_id \<Rightarrow> topic_id \<Rightarrow> 'r lda_gibbs \<Rightarrow> real option" where
  "compute_doc_topic_probability doc topic s =
     fdiv (count_doc doc topic s + alpha s)
          (count_doc_size doc s + real (num_topics s) * alpha s)"

definition compute_probability ::
  "term_id \<Rightarrow> doc_id \<Rightarrow> topic_id \<Rightarrow> 'r lda_gibbs \<Rightarrow> real option" where
  "compute_probability term doc topic s =
     (case compute_term_topic_probability term topic s of
        None \<Rightarrow> None
      | Some a \<Rightarrow>
          (case compute_doc_topic_probability doc topic s of
             None \<Rightarrow> None
           | Some b \<Rightarrow> Some (a * b)))"

definition weights :: "term_id \<Rightarrow> doc_id \<Rightarrow> 'r lda_gibbs \<Rightarrow> real option list" where
  "weights term doc s = map (\<lambda>j. compute_probability term doc j s) [0..<num_topics s]"

definition sample_topic ::
  "'r stdlib \<Rightarrow> term_id \<Rightarrow> doc_id \<Rightarrow> 'r lda_gibbs \<Rightarrow> topic_id \<times> 'r lda_gibbs" where
  "sample_topic lib term doc s =
     (case discrete_distribution lib (weights term doc s) (rng s) of
        (t, r) \<Rightarrow> (t, s\<lparr> rng := r \<rparr>))"

subsection \<open>The sweep\<close>

text \<open>
  \<^verbatim>\<open>doc_word_topic_[i][n]\<close> read: \<^verbatim>\<open>operator[]\<close> inserts an empty inner map
  for an absent document and a value-initialised topic (topic 0) for an absent position.
\<close>

definition read_doc_word_topic ::
  "doc_id \<Rightarrow> nat \<Rightarrow> 'r lda_gibbs \<Rightarrow> topic_id \<times> 'r lda_gibbs" where
  "read_doc_word_topic i n s =
     (let a = inner (doc_word_topic s) i;
          t = (case a n of None \<Rightarrow> 0 | Some t \<Rightarrow> t)
      in (t, s\<lparr> doc_word_topic := (doc_word_topic s)(i \<mapsto> a(n \<mapsto> t)) \<rparr>))"

definition write_doc_word_topic ::
  "doc_id \<Rightarrow> nat \<Rightarrow> topic_id \<Rightarrow> 'r lda_gibbs \<Rightarrow> 'r lda_gibbs" where
  "write_doc_word_topic i n t s =
     s\<lparr> doc_word_topic :=
          (doc_word_topic s)(i \<mapsto> (inner (doc_word_topic s) i)(n \<mapsto> t)) \<rparr>"

text \<open>The body of the innermost loop of \<^verbatim>\<open>perform_iteration\<close>.\<close>

definition token_step ::
  "'r stdlib \<Rightarrow> bool \<Rightarrow> doc_id \<Rightarrow> term_id \<Rightarrow> nat \<Rightarrow> 'r lda_gibbs \<Rightarrow> error + 'r lda_gibbs" where
  "token_step lib init i term n s =
     (case read_doc_word_topic i n s of (old_topic, s0) \<Rightarrow>
     (case (if \<not> init then decrease_counts old_topic term i s0 else Inr s0) of
        Inl e \<Rightarrow> Inl e
      | Inr s1 \<Rightarrow>
     (case sample_topic lib term i s1 of (topic, s2) \<Rightarrow>
        Inr (increase_counts topic term i (write_doc_word_topic i n topic s2)))))"

text \<open>
  The loop over \<^verbatim>\<open>j < freq.second\<close>: \<open>j\<close> counts the occurrences that remain,
  \<open>n\<close> is the term number within the document and is returned for the next posting.
\<close>

fun occurrences_loop ::
  "'r stdlib \<Rightarrow> bool \<Rightarrow> doc_id \<Rightarrow> term_id \<Rightarrow> nat \<Rightarrow> nat \<Rightarrow> 'r lda_gibbs
     \<Rightarrow> error + (nat \<times> 'r lda_gibbs)" where
  "occurrences_loop lib init i term 0 n s = Inr (n, s)"
| "occurrences_loop lib init i term (Suc j) n s =
     (case token_step lib init i term n s of
        Inl e \<Rightarrow> Inl e
      | Inr s' \<Rightarrow> occurrences_loop lib init i term j (n + 1) s')"

fun postings_loop ::
  "'r stdlib \<Rightarrow> bool \<Rightarrow> doc_id \<Rightarrow> (term_id \<times> nat) list \<Rightarrow> nat \<Rightarrow> 'r lda_gibbs
     \<Rightarrow> error + (nat \<times> 'r lda_gibbs)" where
  "postings_loop lib init i [] n s = Inr (n, s)"
| "postings_loop lib init i (freq # rest) n s =
     (case occurrences_loop lib init i (fst freq) (snd freq) n s of
        Inl e \<Rightarrow> Inl e
      | Inr (n', s') \<Rightarrow> postings_loop lib init i rest n' s')"

fun docs_loop ::
  "'r stdlib \<Rightarrow> bool \<Rightarrow> doc_id list \<Rightarrow> 'r lda_gibbs \<Rightarrow> error + 'r lda_gibbs" where
  "docs_loop lib init [] s = Inr s"
| "docs_loop lib init (i # rest) s =
     (case postings_loop lib init i (search_primary_counts (idx s) i) 0 s of
        Inl e \<Rightarrow> Inl e
      | Inr (n, s') \<Rightarrow> docs_loop lib init rest s')"

definition perform_iteration ::
  "'r stdlib \<Rightarrow> bool \<Rightarrow> 'r lda_gibbs \<Rightarrow> error + 'r lda_gibbs" where
  "perform_iteration lib init s = docs_loop lib init (docs (idx s)) s"

definition initialize :: "'r stdlib \<Rightarrow> 'r lda_gibbs \<Rightarrow> error + 'r lda_gibbs" where
  "initialize lib s = perform_iteration lib True s"

subsection \<open>Log likelihood\<close>

text \<open>
  \<^verbatim>\<open>corpus_likelihood\<close> is translated with the arithmetic of \<^verbatim>\<open>double\<close> as a
  parameter: the conversion of a count, sum, difference, product and
  \<^verbatim>\<open>std::lgamma\<close>. Nothing is assumed of them, so the translation also fits an
  arithmetic that rounds, in which the order of the additions shows in the result.
\<close>

record 'f arith =
  of_count :: "nat \<Rightarrow> 'f"
  add :: "'f \<Rightarrow> 'f \<Rightarrow> 'f"
  sub :: "'f \<Rightarrow> 'f \<Rightarrow> 'f"
  mul :: "'f \<Rightarrow> 'f \<Rightarrow> 'f"
  lgam :: "'f \<Rightarrow> 'f"

definition count_term_in :: "'f arith \<Rightarrow> term_id \<Rightarrow> topic_id \<Rightarrow> 'r lda_gibbs \<Rightarrow> 'f" where
  "count_term_in ar term topic s =
     (case topic_term_count s topic of
        None \<Rightarrow> of_count ar 0
      | Some m \<Rightarrow> (case m term of None \<Rightarrow> of_count ar 0 | Some c \<Rightarrow> of_count ar c))"

definition count_topic_in :: "'f arith \<Rightarrow> topic_id \<Rightarrow> 'r lda_gibbs \<Rightarrow> 'f" where
  "count_topic_in ar topic s =
     (case topic_count s topic of None \<Rightarrow> of_count ar 0 | Some c \<Rightarrow> of_count ar c)"

definition likelihood_postings ::
  "'f arith \<Rightarrow> 'f \<Rightarrow> 'r lda_gibbs \<Rightarrow> topic_id \<Rightarrow> 'f \<Rightarrow> (term_id \<times> nat) list \<Rightarrow> 'f" where
  "likelihood_postings ar b s j likelihood ps =
     foldl (\<lambda>acc freq.
              add ar acc
                (mul ar (of_count ar (snd freq))
                   (lgam ar (add ar (count_term_in ar (fst freq) j s) b))))
           likelihood ps"

definition likelihood_docs ::
  "'f arith \<Rightarrow> 'f \<Rightarrow> 'r lda_gibbs \<Rightarrow> topic_id \<Rightarrow> 'f \<Rightarrow> doc_id list \<Rightarrow> 'f" where
  "likelihood_docs ar b s j likelihood ds =
     foldl (\<lambda>acc d_id.
              likelihood_postings ar b s j acc (search_primary_counts (idx s) d_id))
           likelihood ds"

definition likelihood_topic :: "'f arith \<Rightarrow> 'f \<Rightarrow> 'r lda_gibbs \<Rightarrow> 'f \<Rightarrow> topic_id \<Rightarrow> 'f" where
  "likelihood_topic ar b s likelihood j =
     sub ar (likelihood_docs ar b s j likelihood (docs (idx s)))
       (lgam ar (add ar (count_topic_in ar j s) (mul ar (of_count ar (num_words s)) b)))"

definition corpus_likelihood_in :: "'f arith \<Rightarrow> 'f \<Rightarrow> 'r lda_gibbs \<Rightarrow> 'f" where
  "corpus_likelihood_in ar b s =
     foldl (likelihood_topic ar b s)
           (mul ar (of_count ar (num_topics s))
              (sub ar (lgam ar (mul ar (of_count ar (num_words s)) b))
                 (mul ar (of_count ar (num_words s)) (lgam ar b))))
           [0..<num_topics s]"

text \<open>
  The arithmetic in which the driver is run: exact on finite values, and not finite as soon
  as an operand is not finite.
\<close>

definition lift2 :: "(real \<Rightarrow> real \<Rightarrow> real) \<Rightarrow> real option \<Rightarrow> real option \<Rightarrow> real option" where
  "lift2 f a b =
     (case a of None \<Rightarrow> None | Some x \<Rightarrow> (case b of None \<Rightarrow> None | Some y \<Rightarrow> Some (f x y)))"

definition exact :: "'r stdlib \<Rightarrow> real option arith" where
  "exact lib =
     \<lparr> of_count = (\<lambda>c. Some (real c)),
       add = lift2 (+), sub = lift2 (-), mul = lift2 (*),
       lgam = (\<lambda>a. case a of None \<Rightarrow> None | Some x \<Rightarrow> lgamma lib x) \<rparr>"

definition corpus_likelihood :: "'r stdlib \<Rightarrow> 'r lda_gibbs \<Rightarrow> real option" where
  "corpus_likelihood lib s = corpus_likelihood_in (exact lib) (Some (beta s)) s"

subsection \<open>The driver\<close>

text \<open>
  \<^verbatim>\<open>ratio = fabs((likelihood - likelihood_update) / likelihood)\<close>. The quotient is
  not finite when one of the two likelihoods is not finite or the denominator is zero; the
  test \<^verbatim>\<open>ratio <= convergence\<close> is then false.
\<close>

definition ratio :: "real option \<Rightarrow> real option \<Rightarrow> real option" where
  "ratio likelihood likelihood_update =
     (case likelihood of
        None \<Rightarrow> None
      | Some l \<Rightarrow>
          (case likelihood_update of
             None \<Rightarrow> None
           | Some l' \<Rightarrow> map_option abs (fdiv (l - l') l)))"

definition ratio_le :: "real option \<Rightarrow> real option \<Rightarrow> real \<Rightarrow> bool" where
  "ratio_le likelihood likelihood_update convergence =
     (case ratio likelihood likelihood_update of
        None \<Rightarrow> False
      | Some r \<Rightarrow> r \<le> convergence)"

text \<open>
  The \<^verbatim>\<open>for\<close> loop of \<^verbatim>\<open>run\<close>. The function returns which of its two exits
  was taken: the \<^verbatim>\<open>break\<close> after "Found convergence" or the end of the loop.
\<close>

function run_loop ::
  "'r stdlib \<Rightarrow> nat \<Rightarrow> nat \<Rightarrow> real \<Rightarrow> real option \<Rightarrow> 'r lda_gibbs
     \<Rightarrow> error + (status \<times> 'r lda_gibbs)" where
  "run_loop lib i num_iters convergence likelihood s =
     (if i < num_iters then
        (case perform_iteration lib False s of
           Inl e \<Rightarrow> Inl e
         | Inr s' \<Rightarrow>
             (if ratio_le likelihood (corpus_likelihood lib s') convergence
              then Inr (Converged, s')
              else run_loop lib (i + 1) num_iters convergence (corpus_likelihood lib s') s'))
      else Inr (Exhausted, s))"
  by pat_completeness auto
termination
  by (relation "measure (\<lambda>(lib, i, num_iters, convergence, likelihood, s). num_iters - i)") auto

declare run_loop.simps [simp del]

definition run ::
  "'r stdlib \<Rightarrow> nat \<Rightarrow> real \<Rightarrow> 'r lda_gibbs \<Rightarrow> error + (status \<times> 'r lda_gibbs)" where
  "run lib num_iters convergence s =
     (case initialize lib s of
        Inl e \<Rightarrow> Inl e
      | Inr s1 \<Rightarrow> run_loop lib 0 num_iters convergence (corpus_likelihood lib s1) s1)"

subsection \<open>Construction\<close>

text \<open>The object the constructor leaves: the members set, the four tables empty.\<close>

definition fresh_sampler ::
  "forward_index \<Rightarrow> nat \<Rightarrow> nat \<Rightarrow> real \<Rightarrow> real \<Rightarrow> 'r \<Rightarrow> 'r lda_gibbs" where
  "fresh_sampler ix k v a b r =
     \<lparr> idx = ix, num_topics = k, num_words = v, alpha = a, beta = b, rng = r,
       topic_term_count = Map.empty, doc_topic_count = Map.empty,
       topic_count = Map.empty, doc_word_topic = Map.empty \<rparr>"

text \<open>
  The constructor of the base class \<^verbatim>\<open>lda_model\<close> is a parameter: it either throws
  or yields the members \<^verbatim>\<open>idx_\<close>, \<^verbatim>\<open>num_topics_\<close> and \<^verbatim>\<open>num_words_\<close>.
  \<open>dev\<close> is the value the \<^verbatim>\<open>std::random_device\<close> returns.
\<close>

definition lda_gibbs_ctor ::
  "(forward_index \<Rightarrow> nat \<Rightarrow> error + (forward_index \<times> nat \<times> nat)) \<Rightarrow> 'r stdlib \<Rightarrow> nat
     \<Rightarrow> forward_index \<Rightarrow> nat \<Rightarrow> real \<Rightarrow> real \<Rightarrow> error + 'r lda_gibbs" where
  "lda_gibbs_ctor lda_model lib dev ix k a b =
     (case lda_model ix k of
        Inl e \<Rightarrow> Inl e
      | Inr (ix', k', v) \<Rightarrow> Inr (fresh_sampler ix' k' v a b (seed lib dev)))"

subsection \<open>Specification-level notions\<close>

text \<open>No count table stores a zero.\<close>

definition no_zero :: "'r lda_gibbs \<Rightarrow> bool" where
  "no_zero s \<longleftrightarrow>
     (\<forall>t m w. topic_term_count s t = Some m \<longrightarrow> m w \<noteq> Some 0) \<and>
     (\<forall>d m t. doc_topic_count s d = Some m \<longrightarrow> m t \<noteq> Some 0) \<and>
     (\<forall>t. topic_count s t \<noteq> Some 0)"

text \<open>A sequence of calls of the two bookkeeping operations.\<close>

datatype count_op = Increase topic_id term_id doc_id | Decrease topic_id term_id doc_id

fun apply_ops :: "count_op list \<Rightarrow> 'r lda_gibbs \<Rightarrow> error + 'r lda_gibbs" where
  "apply_ops [] s = Inr s"
| "apply_ops (Increase t w d # ops) s = apply_ops ops (increase_counts t w d s)"
| "apply_ops (Decrease t w d # ops) s =
     (case decrease_counts t w d s of Inl e \<Rightarrow> Inl e | Inr s' \<Rightarrow> apply_ops ops s')"

text \<open>
  The sweep as the specification words it. The token occurrences of a document are its
  postings in order, each term repeated as often as its frequency says; the local index of
  an occurrence is its position in that sequence. A sweep visits the occurrences of the
  documents of \<open>docs()\<close> in order.
\<close>

definition doc_terms :: "forward_index \<Rightarrow> doc_id \<Rightarrow> term_id list" where
  "doc_terms ix d = concat (map (\<lambda>(w, c). replicate c w) (search_primary_counts ix d))"

definition doc_tokens :: "forward_index \<Rightarrow> doc_id \<Rightarrow> (doc_id \<times> term_id \<times> nat) list" where
  "doc_tokens ix d = map (\<lambda>(n, w). (d, w, n)) (enumerate 0 (doc_terms ix d))"

definition tokens :: "forward_index \<Rightarrow> (doc_id \<times> term_id \<times> nat) list" where
  "tokens ix = concat (map (doc_tokens ix) (docs ix))"

text \<open>The topic \<^verbatim>\<open>doc_word_topic_[d][n]\<close> reads (topic 0 where nothing is stored).\<close>

definition topic_at :: "'r lda_gibbs \<Rightarrow> doc_id \<times> nat \<Rightarrow> topic_id" where
  "topic_at s p =
     (case inner (doc_word_topic s) (fst p) (snd p) of None \<Rightarrow> 0 | Some t \<Rightarrow> t)"

text \<open>
  Steps 1 to 5 of an iteration of the specification, for the occurrence \<open>n\<close> of term \<open>w\<close>
  in document \<open>d\<close>.
\<close>

definition resample ::
  "'r stdlib \<Rightarrow> doc_id \<times> term_id \<times> nat \<Rightarrow> 'r lda_gibbs \<Rightarrow> error + 'r lda_gibbs" where
  "resample lib tok s =
     (case tok of (d, w, n) \<Rightarrow>
        (case decrease_counts (topic_at s (d, n)) w d s of
           Inl e \<Rightarrow> Inl e
         | Inr s1 \<Rightarrow>
             (case sample_topic lib w d s1 of
                (new, s2) \<Rightarrow> Inr (increase_counts new w d (write_doc_word_topic d n new s2)))))"

fun resample_all ::
  "'r stdlib \<Rightarrow> (doc_id \<times> term_id \<times> nat) list \<Rightarrow> 'r lda_gibbs \<Rightarrow> error + 'r lda_gibbs" where
  "resample_all lib [] s = Inr s"
| "resample_all lib (tok # toks) s =
     (case resample lib tok s of Inl e \<Rightarrow> Inl e | Inr s' \<Rightarrow> resample_all lib toks s')"

text \<open>The loop body applied to a list of occurrences (both modes of the sweep).\<close>

fun steps ::
  "'r stdlib \<Rightarrow> bool \<Rightarrow> (doc_id \<times> term_id \<times> nat) list \<Rightarrow> 'r lda_gibbs
     \<Rightarrow> error + 'r lda_gibbs" where
  "steps lib init [] s = Inr s"
| "steps lib init (tok # toks) s =
     (case token_step lib init (fst tok) (fst (snd tok)) (snd (snd tok)) s of
        Inl e \<Rightarrow> Inl e
      | Inr s' \<Rightarrow> steps lib init toks s')"

text \<open>
  The bookkeeping invariant. A multiset \<open>M\<close> of triples (topic, term, document) stands
  for the token occurrences the tables currently count: every count is the number of
  triples of \<open>M\<close> with that key, and no zero is stored. The occurrences of the corpus
  that have a stored topic, each with its topic, term and document, are among them.
\<close>

definition positions :: "forward_index \<Rightarrow> (doc_id \<times> nat) set" where
  "positions ix = (\<lambda>(d, w, n). (d, n)) ` set (tokens ix)"

definition term_at :: "forward_index \<Rightarrow> doc_id \<times> nat \<Rightarrow> term_id" where
  "term_at ix p = doc_terms ix (fst p) ! snd p"

definition assigned :: "'r lda_gibbs \<Rightarrow> (doc_id \<times> nat) set" where
  "assigned s = {p. inner (doc_word_topic s) (fst p) (snd p) \<noteq> None}"

definition triple :: "'r lda_gibbs \<Rightarrow> doc_id \<times> nat \<Rightarrow> topic_id \<times> term_id \<times> doc_id" where
  "triple s p = (topic_at s p, term_at (idx s) p, fst p)"

definition assignment_mset :: "'r lda_gibbs \<Rightarrow> (topic_id \<times> term_id \<times> doc_id) multiset" where
  "assignment_mset s = image_mset (triple s) (mset_set (positions (idx s) \<inter> assigned s))"

definition counts_of :: "(topic_id \<times> term_id \<times> doc_id) multiset \<Rightarrow> 'r lda_gibbs \<Rightarrow> bool" where
  "counts_of M s \<longleftrightarrow>
     no_zero s \<and>
     (\<forall>t w. stored (inner (topic_term_count s) t) w
              = count (image_mset (\<lambda>(t, w, d). (t, w)) M) (t, w)) \<and>
     (\<forall>d t. stored (inner (doc_topic_count s) d) t
              = count (image_mset (\<lambda>(t, w, d). (d, t)) M) (d, t)) \<and>
     (\<forall>t. stored (topic_count s) t = count (image_mset fst M) t)"

definition consistent :: "(topic_id \<times> term_id \<times> doc_id) multiset \<Rightarrow> 'r lda_gibbs \<Rightarrow> bool" where
  "consistent M s \<longleftrightarrow> counts_of M s \<and> assignment_mset s \<subseteq># M"

text \<open>The sum over all topics of \<open>topic_count\<close>, and the token count of the corpus.\<close>

definition total_topic_count :: "'r lda_gibbs \<Rightarrow> nat" where
  "total_topic_count s = (\<Sum>t\<in>dom (topic_count s). stored (topic_count s) t)"

definition corpus_size :: "forward_index \<Rightarrow> nat" where
  "corpus_size ix = (\<Sum>d\<leftarrow>docs ix. doc_size ix d)"

text \<open>The index reports as the size of a document the sum of its frequencies.\<close>

definition index_consistent :: "forward_index \<Rightarrow> bool" where
  "index_consistent ix \<longleftrightarrow>
     list_all (\<lambda>d. doc_size ix d = (\<Sum>(w, c)\<leftarrow>search_primary_counts ix d. c)) (docs ix)"

text \<open>
  The sampler after the initialization sweep and \<open>k\<close> iterations, the log likelihood
  \<open>L\<^sub>k\<close> there, and the convergence test of the specification at iteration \<open>k\<close>:
  \<open>|L\<^sub>k - L\<^sub>k\<^sub>-\<^sub>1| / |L\<^sub>k\<^sub>-\<^sub>1| \<le> \<epsilon>\<close>, which no \<open>\<epsilon>\<close> satisfies when \<open>L\<^sub>k\<^sub>-\<^sub>1 = 0\<close>
  or when one of the two likelihoods is not finite.
\<close>

fun sweeps :: "'r stdlib \<Rightarrow> nat \<Rightarrow> 'r lda_gibbs \<Rightarrow> error + 'r lda_gibbs" where
  "sweeps lib 0 s = Inr s"
| "sweeps lib (Suc k) s =
     (case sweeps lib k s of Inl e \<Rightarrow> Inl e | Inr s' \<Rightarrow> perform_iteration lib False s')"

definition after_sweeps :: "'r stdlib \<Rightarrow> 'r lda_gibbs \<Rightarrow> nat \<Rightarrow> error + 'r lda_gibbs" where
  "after_sweeps lib s0 k =
     (case initialize lib s0 of Inl e \<Rightarrow> Inl e | Inr s1 \<Rightarrow> sweeps lib k s1)"

definition likelihood_after :: "'r stdlib \<Rightarrow> 'r lda_gibbs \<Rightarrow> nat \<Rightarrow> real option" where
  "likelihood_after lib s0 k =
     (case after_sweeps lib s0 k of Inl e \<Rightarrow> None | Inr s \<Rightarrow> corpus_likelihood lib s)"

definition converges_at :: "'r stdlib \<Rightarrow> 'r lda_gibbs \<Rightarrow> real \<Rightarrow> nat \<Rightarrow> bool" where
  "converges_at lib s0 eps k =
     (case likelihood_after lib s0 (k - 1) of
        None \<Rightarrow> False
      | Some l0 \<Rightarrow>
          (case likelihood_after lib s0 k of
             None \<Rightarrow> False
           | Some l1 \<Rightarrow> l0 \<noteq> 0 \<and> \<bar>l1 - l0\<bar> / \<bar>l0\<bar> \<le> eps))"

text \<open>
  The accumulation of the log likelihood as the specification orders it: topics outermost,
  then the documents of \<open>docs()\<close>, then the postings of the document, each posting adding
  its term; the term of the topic itself is subtracted when the documents are done.
\<close>

datatype 'f addend = Plus 'f | Minus 'f

fun accumulate :: "'f arith \<Rightarrow> 'f \<Rightarrow> 'f addend \<Rightarrow> 'f" where
  "accumulate ar acc (Plus x) = add ar acc x"
| "accumulate ar acc (Minus x) = sub ar acc x"

definition likelihood_addends :: "'f arith \<Rightarrow> 'f \<Rightarrow> 'r lda_gibbs \<Rightarrow> 'f addend list" where
  "likelihood_addends ar b s =
     concat (map (\<lambda>t.
        concat (map (\<lambda>d.
           map (\<lambda>(w, c).
                  Plus (mul ar (of_count ar c) (lgam ar (add ar (count_term_in ar w t s) b))))
               (search_primary_counts (idx s) d))
          (docs (idx s)))
        @ [Minus (lgam ar (add ar (count_topic_in ar t s)
                              (mul ar (of_count ar (num_words s)) b)))])
      [0..<num_topics s])"

text \<open>
  An arithmetic whose values are the expressions themselves: the result shows what was
  computed and in which order.
\<close>

datatype expr = Count nat | Beta | Add expr expr | Sub expr expr | Mul expr expr | Lgam expr

definition symbolic :: "expr arith" where
  "symbolic = \<lparr> of_count = Count, add = Add, sub = Sub, mul = Mul, lgam = Lgam \<rparr>"

text \<open>
  The formula of the specification in the arithmetic of the driver: sums of finite values,
  and not finite as soon as one \<open>ln\<Gamma>\<close> is not finite.
\<close>

definition osum :: "real option list \<Rightarrow> real option" where
  "osum xs = foldr (lift2 (+)) xs (Some 0)"

definition likelihood_formula :: "'r stdlib \<Rightarrow> 'r lda_gibbs \<Rightarrow> real option" where
  "likelihood_formula lib s =
     lift2 (+)
       (lift2 (*) (Some (real (num_topics s)))
          (lift2 (-) (lgamma lib (real (num_words s) * beta s))
             (lift2 (*) (Some (real (num_words s))) (lgamma lib (beta s)))))
       (osum (map (\<lambda>t.
          lift2 (-)
            (osum (map (\<lambda>d.
               osum (map (\<lambda>(w, c).
                  lift2 (*) (Some (real c)) (lgamma lib (count_term w t s + beta s)))
                  (search_primary_counts (idx s) d)))
               (docs (idx s))))
            (lgamma lib (count_topic t s + real (num_words s) * beta s)))
          [0..<num_topics s]))"

text \<open>A sequence of calls of \<^verbatim>\<open>run\<close> on the same sampler, each with its arguments.\<close>

fun runs :: "'r stdlib \<Rightarrow> (nat \<times> real) list \<Rightarrow> 'r lda_gibbs \<Rightarrow> error + 'r lda_gibbs" where
  "runs lib [] s = Inr s"
| "runs lib (call # calls) s =
     (case run lib (fst call) (snd call) s of
        Inl e \<Rightarrow> Inl e
      | Inr (st, s') \<Rightarrow> runs lib calls s')"

definition with_status :: "status \<Rightarrow> error + 'r lda_gibbs \<Rightarrow> error + (status \<times> 'r lda_gibbs)" where
  "with_status st r = (case r of Inl e \<Rightarrow> Inl e | Inr s \<Rightarrow> Inr (st, s))"

subsection \<open>A concrete corpus\<close>

text \<open>
  Scenario A of the specification: two documents over three terms, two topics,
  \<open>\<alpha> = 0.1\<close>, \<open>\<beta> = 0.01\<close>. Document 0 is \<open>{w0: 2, w1: 1}\<close>, document 1 is
  \<open>{w1: 1, w2: 2}\<close>.
\<close>

definition scenario_index :: forward_index where
  "scenario_index =
     \<lparr> docs = [0, 1], num_docs = 2, unique_terms = 3,
       doc_size = (\<lambda>d. if d = 0 \<or> d = 1 then 3 else 0),
       search_primary_counts =
         (\<lambda>d. if d = 0 then [(0, 2), (1, 1)] else if d = 1 then [(1, 1), (2, 2)] else []) \<rparr>"

definition scenario_sampler :: "nat lda_gibbs" where
  "scenario_sampler = fresh_sampler scenario_index 2 3 (1 / 10) (1 / 100) 42"

subsection \<open>The standard library of the concrete runs\<close>

text \<open>
  Modelled from the spec: the engine \<^verbatim>\<open>rng_\<close> is the single 64-bit PRNG stream of
  section 4.3 (its declaration, in \<^verbatim>\<open>topics/lda_gibbs.h\<close>, is not among the
  sources); it is taken to be \<^verbatim>\<open>std::mt19937_64\<close>, whose algorithm the C++ standard
  fixes. The state is the array of 312 words and the position in it.
  \<^verbatim>\<open>seed(value)\<close> fills the array from the value and sets the position to 312, so
  that the first call regenerates the array.
\<close>

type_synonym mt19937_64 = "64 word list \<times> nat"

definition mt_init_step :: "64 word \<Rightarrow> nat \<Rightarrow> 64 word" where
  "mt_init_step x i = 6364136223846793005 * (x XOR drop_bit 62 x) + of_nat i"

fun mt_fill :: "64 word \<Rightarrow> nat \<Rightarrow> nat \<Rightarrow> 64 word list" where
  "mt_fill x i 0 = []"
| "mt_fill x i (Suc k) = x # mt_fill (mt_init_step x i) (i + 1) k"

definition mt_seed :: "nat \<Rightarrow> mt19937_64" where
  "mt_seed sd = (mt_fill (of_nat sd) 1 312, 312)"

text \<open>The word that \<open>mt_fill\<close> puts \<open>n\<close> places after its first.\<close>

fun mt_at :: "64 word \<Rightarrow> nat \<Rightarrow> nat \<Rightarrow> 64 word" where
  "mt_at x i 0 = x"
| "mt_at x i (Suc n) = mt_at (mt_init_step x i) (i + 1) n"

definition mt_mix :: "64 word \<Rightarrow> 64 word \<Rightarrow> 64 word \<Rightarrow> 64 word" where
  "mt_mix xk xk1 xkm =
     (let y = (xk AND 0xFFFFFFFF80000000) OR (xk1 AND 0x7FFFFFFF)
      in xkm XOR drop_bit 1 y XOR (if bit y 0 then 0xB5026F5AA96619E9 else 0))"

text \<open>
  The regeneration of the array, element by element from the first: element \<open>k\<close> is
  mixed from itself, its successor and the element 156 places on, the positions taken
  around the array.
\<close>

function mt_gen_rand :: "nat \<Rightarrow> 64 word list \<Rightarrow> 64 word list" where
  "mt_gen_rand k xs =
     (if k < 312
      then mt_gen_rand (k + 1)
             (xs[k := mt_mix (xs ! k) (xs ! ((k + 1) mod 312)) (xs ! ((k + 156) mod 312))])
      else xs)"
  by pat_completeness auto
termination
  by (relation "measure (\<lambda>(k, xs). 312 - k)") auto

declare mt_gen_rand.simps [simp del]

definition mt_temper :: "64 word \<Rightarrow> 64 word" where
  "mt_temper z =
     (let z1 = z XOR (drop_bit 29 z AND 0x5555555555555555);
          z2 = z1 XOR (push_bit 17 z1 AND 0x71D67FFFEDA60000);
          z3 = z2 XOR (push_bit 37 z2 AND 0xFFF7EEE000000000)
      in z3 XOR drop_bit 43 z3)"

definition mt_next :: "mt19937_64 \<Rightarrow> 64 word \<times> mt19937_64" where
  "mt_next st =
     (case (if 312 \<le> snd st then (mt_gen_rand 0 (fst st), 0) else st) of
        (xs, p) \<Rightarrow> (mt_temper (xs ! p), (xs, p + 1)))"

text \<open>
  \<^verbatim>\<open>std::discrete_distribution\<close> as the GNU C++ library implements it. With fewer
  than two weights it answers 0 and leaves the engine alone. Otherwise it divides the
  weights by their sum, takes the running sums with the last set to 1, draws \<open>p\<close> from one
  output \<open>z\<close> of the engine and answers the position that \<^verbatim>\<open>std::lower_bound\<close> finds
  for \<open>p\<close> by bisection; a comparison with a NaN is false. The draw \<open>p\<close> is
  \<^verbatim>\<open>std::generate_canonical\<close>: \<open>z\<close> converted to a \<^verbatim>\<open>double\<close> (53 significant bits,
  rounded to nearest, ties to even) and divided by \<open>2\<^sup>6\<^sup>4\<close>, with the largest
  \<^verbatim>\<open>double\<close> below 1 in place of a quotient of 1. This is modelled for finite weights
  whose sum is not zero, and for weights that are all zero, where every quotient is a NaN;
  the library's assertion that the sum is positive is taken to be compiled out, as it is
  without \<^verbatim>\<open>_GLIBCXX_ASSERTIONS\<close>. What the library answers on other weights (one not
  finite, or a zero sum of weights not all zero) is the parameter \<open>other\<close>.
\<close>

fun bit_width :: "nat \<Rightarrow> nat" where
  "bit_width n = (if n = 0 then 0 else Suc (bit_width (n div 2)))"

declare bit_width.simps [simp del]

definition round_to_double :: "nat \<Rightarrow> nat" where
  "round_to_double z =
     (let sh = bit_width z - 53; q = z div 2 ^ sh; r = z mod 2 ^ sh
      in if 2 ^ sh < 2 * r \<or> (2 ^ sh = 2 * r \<and> odd q) then (q + 1) * 2 ^ sh else q * 2 ^ sh)"

definition canonical :: "64 word \<Rightarrow> real" where
  "canonical z =
     (let x = real (round_to_double (unat z)) / 2 ^ 64
      in if 1 \<le> x then 1 - 1 / 2 ^ 53 else x)"

fun running_sums :: "real option \<Rightarrow> real option list \<Rightarrow> real option list" where
  "running_sums acc [] = []"
| "running_sums acc (x # xs) = lift2 (+) acc x # running_sums (lift2 (+) acc x) xs"

fun partial_sum :: "real option list \<Rightarrow> real option list" where
  "partial_sum [] = []"
| "partial_sum (x # xs) = x # running_sums x xs"

definition cumulative :: "real option list \<Rightarrow> real option list" where
  "cumulative ws =
     (let total = foldl (lift2 (+)) (Some 0) ws;
          cp = partial_sum
                 (map (\<lambda>w. case w of None \<Rightarrow> None
                                | Some x \<Rightarrow> (case total of None \<Rightarrow> None | Some y \<Rightarrow> fdiv x y)) ws)
      in cp[length cp - 1 := Some 1])"

function lower_bound :: "real option list \<Rightarrow> real \<Rightarrow> nat \<Rightarrow> nat \<Rightarrow> nat" where
  "lower_bound cp p first len =
     (if 0 < len
      then (if (case cp ! (first + len div 2) of None \<Rightarrow> False | Some c \<Rightarrow> c < p)
            then lower_bound cp p (first + len div 2 + 1) (len - len div 2 - 1)
            else lower_bound cp p first (len div 2))
      else first)"
  by pat_completeness auto
termination
  by (relation "measure (\<lambda>(cp, p, first, len). len)") auto

declare lower_bound.simps [simp del]

definition gnu_discrete_distribution ::
  "(real option list \<Rightarrow> mt19937_64 \<Rightarrow> nat \<times> mt19937_64) \<Rightarrow> real option list \<Rightarrow> mt19937_64
     \<Rightarrow> nat \<times> mt19937_64" where
  "gnu_discrete_distribution other ws st =
     (if length ws < 2 then (0, st)
      else if list_all (\<lambda>w. w \<noteq> None) ws \<and>
              (foldl (lift2 (+)) (Some 0) ws \<noteq> Some 0 \<or> list_all (\<lambda>w. w = Some 0) ws)
      then (case mt_next st of
              (z, st') \<Rightarrow> (lower_bound (cumulative ws) (canonical z) 0 (length ws), st'))
      else other ws st)"

text \<open>
  The library: the engine and the distribution above, with \<^verbatim>\<open>std::lgamma\<close> a
  parameter.
\<close>

definition gnu_lib ::
  "(real option list \<Rightarrow> mt19937_64 \<Rightarrow> nat \<times> mt19937_64) \<Rightarrow> (real \<Rightarrow> real option)
     \<Rightarrow> mt19937_64 stdlib" where
  "gnu_lib other lg =
     \<lparr> discrete_distribution = gnu_discrete_distribution other, lgamma = lg, seed = mt_seed \<rparr>"

text \<open>A library with an engine that also counts the draws made from it.\<close>

definition counting :: "'r stdlib \<Rightarrow> ('r \<times> nat) stdlib" where
  "counting lib =
     \<lparr> discrete_distribution =
         (\<lambda>ws st. case discrete_distribution lib ws (fst st) of
                     (t, r) \<Rightarrow> (t, (r, snd st + 1))),
       lgamma = lgamma lib,
       seed = (\<lambda>dev. (seed lib dev, 0)) \<rparr>"

text \<open>
  Modelled from the spec: the constructor of the base class \<^verbatim>\<open>lda_model\<close>
  (\<^verbatim>\<open>topics/lda_model.h\<close> and its implementation are not among the sources). It is
  taken to reject \<open>K = 0\<close>, \<open>V = 0\<close> and \<open>D = 0\<close>, as the error taxonomy of the
  specification says, and otherwise to store the index, \<open>K\<close> and the vocabulary size.
\<close>

definition spec_lda_model :: "forward_index \<Rightarrow> nat \<Rightarrow> error + (forward_index \<times> nat \<times> nat)" where
  "spec_lda_model ix k =
     (if k = 0 \<or> unique_terms ix = 0 \<or> num_docs ix = 0 then Inl ConstructionFailed
      else Inr (ix, k, unique_terms ix))"

text \<open>
  What a caller observes of a sampler it constructs and runs once: the outcome of
  \<open>run\<close>, and the log likelihoods \<open>L\<^sub>0, \<dots>, L\<^sub>n\<close> of the sweeps.
\<close>

definition constructed_run ::
  "(forward_index \<Rightarrow> nat \<Rightarrow> error + (forward_index \<times> nat \<times> nat)) \<Rightarrow> 'r stdlib \<Rightarrow> nat
     \<Rightarrow> forward_index \<Rightarrow> nat \<Rightarrow> real \<Rightarrow> real \<Rightarrow> nat \<Rightarrow> real
     \<Rightarrow> error + (status \<times> 'r lda_gibbs)" where
  "constructed_run lda_model lib dev ix k a b n eps =
     (case lda_gibbs_ctor lda_model lib dev ix k a b of
        Inl e \<Rightarrow> Inl e
      | Inr s \<Rightarrow> run lib n eps s)"

definition constructed_likelihoods ::
  "(forward_index \<Rightarrow> nat \<Rightarrow> error + (forward_index \<times> nat \<times> nat)) \<Rightarrow> 'r stdlib \<Rightarrow> nat
     \<Rightarrow> forward_index \<Rightarrow> nat \<Rightarrow> real \<Rightarrow> real \<Rightarrow> nat \<Rightarrow> real option list" where
  "constructed_likelihoods lda_model lib dev ix k a b n =
     (case lda_gibbs_ctor lda_model lib dev ix k a b of
        Inl e \<Rightarrow> []
      | Inr s \<Rightarrow> map (likelihood_after lib s) [0..<Suc n])"

text \<open>The topic stored for occurrence \<open>n\<close> of document \<open>d\<close> when \<open>run\<close> has returned.\<close>

definition final_topic ::
  "error + (status \<times> 'r lda_gibbs) \<Rightarrow> doc_id \<Rightarrow> nat \<Rightarrow> topic_id option" where
  "final_topic res d n =
     (case res of Inl e \<Rightarrow> None | Inr (st, s) \<Rightarrow> inner (doc_word_topic s) d n)"

text \<open>A corpus of one document with one token.\<close>

definition one_token_index :: forward_index where
  "one_token_index =
     \<lparr> docs = [0], num_docs = 1, unique_terms = 1,
       doc_size = (\<lambda>d. if d = 0 then 1 else 0),
       search_primary_counts = (\<lambda>d. if d = 0 then [(0, 1)] else []) \<rparr>"

text \<open>Scenario A with \<open>\<alpha> = 0\<close>, before the first draw; the engine is seeded with 2.\<close>

definition zero_alpha_sampler :: "mt19937_64 lda_gibbs" where
  "zero_alpha_sampler = fresh_sampler scenario_index 2 3 0 (1 / 100) (mt_seed 2)"

text \<open>
  What of a sampler is not the engine: the index, the parameters, the count tables and the
  topic assignments.
\<close>

definition observable :: "'r lda_gibbs \<Rightarrow> unit lda_gibbs" where
  "observable s =
     \<lparr> idx = idx s, num_topics = num_topics s, num_words = num_words s,
       alpha = alpha s, beta = beta s, rng = (),
       topic_term_count = topic_term_count s, doc_topic_count = doc_topic_count s,
       topic_count = topic_count s, doc_word_topic = doc_word_topic s \<rparr>"

definition observed ::
  "error + (status \<times> 'r lda_gibbs) \<Rightarrow> error + (status \<times> unit lda_gibbs)" where
  "observed res = (case res of Inl e \<Rightarrow> Inl e | Inr (st, s) \<Rightarrow> Inr (st, observable s))"

section \<open>Count bookkeeping: round trip and sparsity\<close>

lemma drop_one_plus_one:
  "m k = Some c \<Longrightarrow> 0 < c \<Longrightarrow> plus_one (drop_one m k c) k = m"
  by (auto simp: plus_one_def stored_def drop_one_def fun_eq_iff)

lemma inner_upd: "inner (m(a \<mapsto> x)) a = x"
  by (simp add: inner_def)

text \<open>
  C6: when the three counters of \<open>(t, w, d)\<close> are at least one, \<open>decrease\<close> succeeds and
  \<open>increase\<close> after it gives back the sampler it started from: the three tables are the
  same maps, so a key that the decrement erased is present again with its old value.
\<close>

theorem decrease_then_increase_identity:
  assumes "1 \<le> count_term w t s" "1 \<le> count_doc d t s" "1 \<le> count_topic t s"
  shows "\<exists>s1. decrease_counts t w d s = Inr s1 \<and> increase_counts t w d s1 = s"
proof -
  from assms(1) obtain tt c1 where tt: "topic_term_count s t = Some tt" "tt w = Some c1" "0 < c1"
    by (auto simp: count_term_def split: option.splits)
  from assms(2) obtain dt c2 where dt: "doc_topic_count s d = Some dt" "dt t = Some c2" "0 < c2"
    by (auto simp: count_doc_def split: option.splits)
  from assms(3) obtain c3 where tc: "topic_count s t = Some c3" "0 < c3"
    by (auto simp: count_topic_def split: option.splits)
  show ?thesis
    using tt dt tc
    by (simp add: decrease_counts_def increase_counts_def inner_upd drop_one_plus_one map_upd_triv)
qed

text \<open>
  The round trip on a sampler whose three counters are exactly one: the decrement erases
  the key of \<open>topic_count\<close>, the increment creates it again.
\<close>

theorem decrease_then_increase_identity_witness:
  "1 \<le> count_term 1 0 (increase_counts 0 1 0 scenario_sampler) \<and>
   1 \<le> count_doc 0 0 (increase_counts 0 1 0 scenario_sampler) \<and>
   1 \<le> count_topic 0 (increase_counts 0 1 0 scenario_sampler) \<and>
   (\<exists>s1. decrease_counts 0 1 0 (increase_counts 0 1 0 scenario_sampler) = Inr s1 \<and>
         topic_count s1 = Map.empty \<and>
         increase_counts 0 1 0 s1 = increase_counts 0 1 0 scenario_sampler)"
proof -
  have h: "1 \<le> count_term 1 0 (increase_counts 0 1 0 scenario_sampler)"
      "1 \<le> count_doc 0 0 (increase_counts 0 1 0 scenario_sampler)"
      "1 \<le> count_topic 0 (increase_counts 0 1 0 scenario_sampler)"
    by (simp_all add: count_term_def count_doc_def count_topic_def increase_counts_def
        scenario_sampler_def fresh_sampler_def plus_one_def stored_def inner_def)
  from decrease_then_increase_identity[OF h] obtain s1 where
    s1: "decrease_counts 0 1 0 (increase_counts 0 1 0 scenario_sampler) = Inr s1"
        "increase_counts 0 1 0 s1 = increase_counts 0 1 0 scenario_sampler"
    by blast
  from s1(1) have "topic_count s1 = Map.empty"
    by (auto simp: decrease_counts_def increase_counts_def scenario_sampler_def
        fresh_sampler_def plus_one_def stored_def inner_def drop_one_def)
  with h s1 show ?thesis by blast
qed

lemma no_zero_increase: "no_zero s \<Longrightarrow> no_zero (increase_counts t w d s)"
  by (auto simp: no_zero_def increase_counts_def plus_one_def stored_def inner_def split: option.splits if_splits)

lemma drop_one_no_zero:
  "m k = Some c \<Longrightarrow> c \<noteq> 0 \<Longrightarrow> m k' \<noteq> Some 0 \<Longrightarrow> drop_one m k c k' \<noteq> Some 0"
  by (auto simp: drop_one_def)

lemma decrease_counts_InrE:
  assumes "decrease_counts t w d s = Inr s'"
  obtains tt c1 dt c2 c3 where
    "topic_term_count s t = Some tt" "tt w = Some c1"
    "doc_topic_count s d = Some dt" "dt t = Some c2"
    "topic_count s t = Some c3"
    "s' = s\<lparr> topic_term_count := (topic_term_count s)(t \<mapsto> drop_one tt w c1),
              doc_topic_count := (doc_topic_count s)(d \<mapsto> drop_one dt t c2),
              topic_count := drop_one (topic_count s) t c3 \<rparr>"
  using assms by (auto simp: decrease_counts_def split: option.splits)

lemma no_zero_decrease:
  assumes nz: "no_zero s" and dec: "decrease_counts t w d s = Inr s'"
  shows "no_zero s'"
proof -
  from dec obtain tt c1 dt c2 c3 where
    tt: "topic_term_count s t = Some tt" "tt w = Some c1" and
    dt: "doc_topic_count s d = Some dt" "dt t = Some c2" and
    tc: "topic_count s t = Some c3" and
    s': "s' = s\<lparr> topic_term_count := (topic_term_count s)(t \<mapsto> drop_one tt w c1),
                  doc_topic_count := (doc_topic_count s)(d \<mapsto> drop_one dt t c2),
                  topic_count := drop_one (topic_count s) t c3 \<rparr>"
    by (rule decrease_counts_InrE)
  from nz tt(1) have tt0: "\<And>k. tt k \<noteq> Some 0"
    unfolding no_zero_def by blast
  from nz dt(1) have dt0: "\<And>k. dt k \<noteq> Some 0"
    unfolding no_zero_def by blast
  from nz have tc0: "\<And>k. topic_count s k \<noteq> Some 0"
    unfolding no_zero_def by blast
  from tt0[of w] tt(2) have c1: "c1 \<noteq> 0" by auto
  from dt0[of t] dt(2) have c2: "c2 \<noteq> 0" by auto
  from tc0[of t] tc have c3: "c3 \<noteq> 0" by auto
  have a: "\<And>k. drop_one tt w c1 k \<noteq> Some 0"
    using drop_one_no_zero[of tt w c1] tt(2) c1 tt0 by blast
  have b: "\<And>k. drop_one dt t c2 k \<noteq> Some 0"
    using drop_one_no_zero[of dt t c2] dt(2) c2 dt0 by blast
  have c: "\<And>k. drop_one (topic_count s) t c3 k \<noteq> Some 0"
    using drop_one_no_zero[of "topic_count s" t c3] tc c3 tc0 by blast
  show ?thesis
    using nz a b c unfolding s' no_zero_def by auto
qed

text \<open>
  C7: starting from tables that store no zero (the empty tables of a new sampler are such),
  after any sequence of calls of \<open>increase\<close> and \<open>decrease\<close> that does not throw, no table
  stores a zero.
\<close>

theorem no_zero_after_every_call:
  "no_zero s \<Longrightarrow> apply_ops ops s = Inr s' \<Longrightarrow> no_zero s'"
proof (induction ops s rule: apply_ops.induct)
  case (1 s)
  then show ?case by simp
next
  case (2 t w d ops s)
  then show ?case by (simp add: no_zero_increase)
next
  case (3 t w d ops s)
  then show ?case by (auto split: sum.splits dest: no_zero_decrease)
qed

theorem no_zero_after_every_call_witness:
  "no_zero scenario_sampler \<and>
   (\<exists>s'. apply_ops [Increase 0 1 0, Increase 0 1 0, Decrease 0 1 0, Decrease 0 1 0]
            scenario_sampler = Inr s' \<and> no_zero s')"
proof -
  have nz: "no_zero scenario_sampler"
    by (simp add: no_zero_def scenario_sampler_def fresh_sampler_def)
  have "\<exists>s'. apply_ops [Increase 0 1 0, Increase 0 1 0, Decrease 0 1 0, Decrease 0 1 0]
               scenario_sampler = Inr s'"
    by (simp add: decrease_counts_def increase_counts_def scenario_sampler_def
        fresh_sampler_def plus_one_def stored_def inner_def drop_one_def)
  then obtain s' where
    r: "apply_ops [Increase 0 1 0, Increase 0 1 0, Decrease 0 1 0, Decrease 0 1 0]
          scenario_sampler = Inr s'" ..
  from no_zero_after_every_call[OF nz r] nz r show ?thesis by blast
qed

section \<open>The sweep, occurrence by occurrence\<close>

lemma idx_decrease: "decrease_counts t w d s = Inr s' \<Longrightarrow> idx s' = idx s"
  by (erule decrease_counts_InrE) simp

lemma idx_token_step: "token_step lib init d w n s = Inr s' \<Longrightarrow> idx s' = idx s"
  by (auto simp: token_step_def read_doc_word_topic_def Let_def sample_topic_def
      increase_counts_def write_doc_word_topic_def
      split: prod.splits sum.splits if_splits dest!: idx_decrease)

lemma idx_steps: "steps lib init toks s = Inr s' \<Longrightarrow> idx s' = idx s"
  by (induction toks arbitrary: s) (auto split: sum.splits dest: idx_token_step)

lemma steps_append:
  "steps lib init (xs @ ys) s =
     (case steps lib init xs s of Inl e \<Rightarrow> Inl e | Inr s' \<Rightarrow> steps lib init ys s')"
  by (induction xs arbitrary: s) (auto split: sum.splits)

lemma occurrences_loop_steps:
  "occurrences_loop lib init i w c n s =
     (case steps lib init (map (\<lambda>(k, w). (i, w, k)) (enumerate n (replicate c w))) s of
        Inl e \<Rightarrow> Inl e
      | Inr s' \<Rightarrow> Inr (n + c, s'))"
  by (induction c arbitrary: n s) (auto split: sum.splits)

lemma postings_loop_steps:
  "postings_loop lib init i ps n s =
     (case steps lib init
             (map (\<lambda>(k, w). (i, w, k))
                  (enumerate n (concat (map (\<lambda>(w, c). replicate c w) ps)))) s of
        Inl e \<Rightarrow> Inl e
      | Inr s' \<Rightarrow> Inr (n + length (concat (map (\<lambda>(w, c). replicate c w) ps)), s'))"
proof (induction ps arbitrary: n s)
  case Nil
  then show ?case by simp
next
  case (Cons freq rest)
  show ?case
    by (cases freq)
       (auto simp: occurrences_loop_steps Cons.IH enumerate_append_eq steps_append
             split: sum.splits)
qed

lemma docs_loop_steps:
  "docs_loop lib init ds s = steps lib init (concat (map (doc_tokens (idx s)) ds)) s"
proof (induction ds arbitrary: s)
  case Nil
  then show ?case by simp
next
  case (Cons i rest)
  show ?case
    by (auto simp: postings_loop_steps steps_append doc_tokens_def doc_terms_def Cons.IH
             split: sum.splits dest: idx_steps)
qed

lemma perform_iteration_steps:
  "perform_iteration lib init s = steps lib init (tokens (idx s)) s"
  by (simp add: perform_iteration_def tokens_def docs_loop_steps)

lemma term_topic_probability_dwt [simp]:
  "compute_term_topic_probability w j (s\<lparr> doc_word_topic := X \<rparr>) = compute_term_topic_probability w j s"
  "compute_term_topic_probability w j (s\<lparr> rng := r \<rparr>) = compute_term_topic_probability w j s"
  by (simp_all add: compute_term_topic_probability_def count_term_def count_topic_def)

lemma doc_topic_probability_dwt [simp]:
  "compute_doc_topic_probability d j (s\<lparr> doc_word_topic := X \<rparr>) = compute_doc_topic_probability d j s"
  "compute_doc_topic_probability d j (s\<lparr> rng := r \<rparr>) = compute_doc_topic_probability d j s"
  by (simp_all add: compute_doc_topic_probability_def count_doc_def count_doc_size_def)

lemma weights_dwt [simp]: "weights w d (s\<lparr> doc_word_topic := X \<rparr>) = weights w d s"
  by (simp add: weights_def compute_probability_def cong: option.case_cong)

lemma weights_rng [simp]: "weights w d (s\<lparr> rng := r \<rparr>) = weights w d s"
  by (simp add: weights_def compute_probability_def cong: option.case_cong)

lemma decrease_counts_dwt:
  "decrease_counts t w d (s\<lparr> doc_word_topic := X \<rparr>) =
     (case decrease_counts t w d s of
        Inl e \<Rightarrow> Inl e
      | Inr s' \<Rightarrow> Inr (s'\<lparr> doc_word_topic := X \<rparr>))"
  by (simp add: decrease_counts_def split: option.splits)

lemma sample_topic_dwt:
  "sample_topic lib w d (s\<lparr> doc_word_topic := X \<rparr>) =
     (case sample_topic lib w d s of (t, s') \<Rightarrow> (t, s'\<lparr> doc_word_topic := X \<rparr>))"
  by (simp add: sample_topic_def split: prod.splits)

lemma dwt_decrease: "decrease_counts t w d s = Inr s' \<Longrightarrow> doc_word_topic s' = doc_word_topic s"
  by (erule decrease_counts_InrE) simp

lemma dwt_sample: "sample_topic lib w d s = (t, s') \<Longrightarrow> doc_word_topic s' = doc_word_topic s"
  by (auto simp: sample_topic_def split: prod.splits)

lemma write_after_read:
  "doc_word_topic s = X \<Longrightarrow>
   write_doc_word_topic d n t (s\<lparr> doc_word_topic := X(d \<mapsto> (inner X d)(n \<mapsto> t0)) \<rparr>)
     = write_doc_word_topic d n t s"
  by (auto simp: write_doc_word_topic_def inner_def)

lemma read_doc_word_topic_eq:
  "read_doc_word_topic d n s =
     (topic_at s (d, n),
      s\<lparr> doc_word_topic :=
           (doc_word_topic s)(d \<mapsto> (inner (doc_word_topic s) d)(n \<mapsto> topic_at s (d, n))) \<rparr>)"
  by (simp add: read_doc_word_topic_def topic_at_def Let_def)

lemma token_step_resample:
  "token_step lib False d w n s = resample lib (d, w, n) s"
proof (cases "decrease_counts (topic_at s (d, n)) w d s")
  case (Inl e)
  then show ?thesis
    by (simp add: token_step_def resample_def read_doc_word_topic_eq decrease_counts_dwt)
next
  case (Inr s1)
  obtain t s2 where sm: "sample_topic lib w d s1 = (t, s2)"
    by (cases "sample_topic lib w d s1")
  have "doc_word_topic s2 = doc_word_topic s"
    using dwt_decrease[OF Inr] dwt_sample[OF sm] by simp
  then show ?thesis
    using Inr sm
    by (simp add: token_step_def resample_def read_doc_word_topic_eq decrease_counts_dwt
        sample_topic_dwt write_after_read)
qed

lemma token_step_init:
  "token_step lib True d w n s =
     (case sample_topic lib w d s of
        (t, s2) \<Rightarrow> Inr (increase_counts t w d (write_doc_word_topic d n t s2)))"
proof -
  obtain t s2 where sm: "sample_topic lib w d s = (t, s2)"
    by (cases "sample_topic lib w d s")
  have "doc_word_topic s2 = doc_word_topic s"
    using dwt_sample[OF sm] by simp
  then show ?thesis
    using sm
    by (simp add: token_step_def read_doc_word_topic_eq sample_topic_dwt write_after_read)
qed

lemma steps_resample_all: "steps lib False toks s = resample_all lib toks s"
  by (induction toks arbitrary: s) (auto simp: token_step_resample split: sum.splits)

text \<open>
  C1: an iteration (\<open>perform_iteration\<close> with \<open>init = false\<close>) is the sequence of the
  \<open>resample\<close> steps of the token occurrences, taken document by document in the order of
  \<open>docs()\<close>, posting by posting, occurrence by occurrence with the document-local index
  \<open>n\<close>. A \<open>resample\<close> step reads the old topic, decreases its counts, then draws the new
  topic from the decreased counts, stores it and increases its counts; an exception of the
  decrement ends the sweep.
\<close>

theorem perform_iteration_resamples_in_order:
  "perform_iteration lib False s = resample_all lib (tokens (idx s)) s"
proof -
  have "perform_iteration lib False s = steps lib False (tokens (idx s)) s"
    by (rule perform_iteration_steps)
  also have "\<dots> = resample_all lib (tokens (idx s)) s"
    by (rule steps_resample_all)
  finally show ?thesis .
qed

section \<open>The bookkeeping invariant\<close>

lemma stored_plus_one: "stored (plus_one m a) b = (if b = a then stored m a + 1 else stored m b)"
  by (simp add: plus_one_def stored_def)

lemma stored_drop_one:
  "m a = Some c \<Longrightarrow> stored (drop_one m a c) b = (if b = a then c - 1 else stored m b)"
  by (auto simp: drop_one_def stored_def)

lemma stored_pos_iff: "0 < stored m a \<longleftrightarrow> (\<exists>c. m a = Some c \<and> 0 < c)"
  by (auto simp: stored_def split: option.splits)

lemma inner_upd_other: "b \<noteq> a \<Longrightarrow> inner (m(a \<mapsto> x)) b = inner m b"
  by (simp add: inner_def)

lemma inner_Some: "m a = Some x \<Longrightarrow> inner m a = x"
  by (simp add: inner_def)

lemma counts_of_increase:
  assumes "counts_of M s"
  shows "counts_of (add_mset (t, w, d) M) (increase_counts t w d s)"
proof -
  have nz: "no_zero (increase_counts t w d s)"
    using assms by (simp add: counts_of_def no_zero_increase)
  have a: "stored (inner (topic_term_count (increase_counts t w d s)) t') w'
             = count (image_mset (\<lambda>(t, w, d). (t, w)) (add_mset (t, w, d) M)) (t', w')" for t' w'
    using assms
    by (cases "t' = t") (auto simp: counts_of_def increase_counts_def inner_upd inner_upd_other stored_plus_one)
  have b: "stored (inner (doc_topic_count (increase_counts t w d s)) d') t'
             = count (image_mset (\<lambda>(t, w, d). (d, t)) (add_mset (t, w, d) M)) (d', t')" for t' d'
    using assms
    by (cases "d' = d") (auto simp: counts_of_def increase_counts_def inner_upd inner_upd_other stored_plus_one)
  have c: "stored (topic_count (increase_counts t w d s)) t'
             = count (image_mset fst (add_mset (t, w, d) M)) t'" for t'
    using assms
    by (auto simp: counts_of_def increase_counts_def stored_plus_one)
  show ?thesis
    unfolding counts_of_def using nz a b c by blast
qed

lemma stored_inner_pos:
  assumes "0 < stored (inner m a) b"
  obtains mm c where "m a = Some mm" "mm b = Some c" "0 < c"
  using assms by (auto simp: stored_def inner_def split: option.splits)

lemma count_image_remove1:
  "x \<in># M \<Longrightarrow> count (image_mset f (M - {#x#})) y
     = count (image_mset f M) y - (if f x = y then 1 else 0)"
  by (simp add: image_mset_Diff)

lemma count_image_member: "x \<in># M \<Longrightarrow> 0 < count (image_mset f M) (f x)"
  by (simp add: count_greater_zero_iff)

lemma counts_of_decrease:
  assumes co: "counts_of M s" and mem: "(t, w, d) \<in># M"
  shows "\<exists>s'. decrease_counts t w d s = Inr s' \<and> counts_of (M - {#(t, w, d)#}) s' \<and>
              idx s' = idx s \<and> doc_word_topic s' = doc_word_topic s"
proof -
  from co have A: "\<And>t w. stored (inner (topic_term_count s) t) w
                      = count (image_mset (\<lambda>(t, w, d). (t, w)) M) (t, w)"
    and B: "\<And>d t. stored (inner (doc_topic_count s) d) t
                      = count (image_mset (\<lambda>(t, w, d). (d, t)) M) (d, t)"
    and C: "\<And>t. stored (topic_count s) t = count (image_mset fst M) t"
    and nz: "no_zero s"
    by (auto simp: counts_of_def)
  have "0 < stored (inner (topic_term_count s) t) w"
    using count_image_member[OF mem, of "\<lambda>(t, w, d). (t, w)"] by (simp add: A)
  then obtain tt c1 where tt: "topic_term_count s t = Some tt" "tt w = Some c1"
    by (rule stored_inner_pos)
  have "0 < stored (inner (doc_topic_count s) d) t"
    using count_image_member[OF mem, of "\<lambda>(t, w, d). (d, t)"] by (simp add: B)
  then obtain dt c2 where dt: "doc_topic_count s d = Some dt" "dt t = Some c2"
    by (rule stored_inner_pos)
  have "0 < stored (topic_count s) t"
    using count_image_member[OF mem, of fst] by (simp add: C)
  then obtain c3 where tc: "topic_count s t = Some c3"
    by (auto simp: stored_pos_iff)
  define s' where "s' = s\<lparr> topic_term_count := (topic_term_count s)(t \<mapsto> drop_one tt w c1),
                  doc_topic_count := (doc_topic_count s)(d \<mapsto> drop_one dt t c2),
                  topic_count := drop_one (topic_count s) t c3 \<rparr>"
  have dec: "decrease_counts t w d s = Inr s'"
    using tt dt tc by (simp add: decrease_counts_def s'_def)
  have nz': "no_zero s'"
    using no_zero_decrease[OF nz dec] .
  have c1: "c1 = count (image_mset (\<lambda>(t, w, d). (t, w)) M) (t, w)"
    using A[of t w] tt by (simp add: inner_Some stored_def)
  have c2: "c2 = count (image_mset (\<lambda>(t, w, d). (d, t)) M) (d, t)"
    using B[of d t] dt by (simp add: inner_Some stored_def)
  have c3: "c3 = count (image_mset fst M) t"
    using C[of t] tc by (simp add: stored_def)
  have a: "stored (inner (topic_term_count s') t') w'
             = count (image_mset (\<lambda>(t, w, d). (t, w)) (M - {#(t, w, d)#})) (t', w')" for t' w'
  proof (cases "t' = t")
    case True
    then show ?thesis
      using tt c1 A[of t w'] 
      by (simp add: s'_def inner_upd stored_drop_one count_image_remove1[OF mem] inner_Some)
  next
    case False
    then show ?thesis
      using A[of t' w'] by (simp add: s'_def inner_upd_other count_image_remove1[OF mem])
  qed
  have b: "stored (inner (doc_topic_count s') d') t'
             = count (image_mset (\<lambda>(t, w, d). (d, t)) (M - {#(t, w, d)#})) (d', t')" for d' t'
  proof (cases "d' = d")
    case True
    then show ?thesis
      using dt c2 B[of d t'] 
      by (simp add: s'_def inner_upd stored_drop_one count_image_remove1[OF mem] inner_Some)
  next
    case False
    then show ?thesis
      using B[of d' t'] by (simp add: s'_def inner_upd_other count_image_remove1[OF mem])
  qed
  have c: "stored (topic_count s') t' = count (image_mset fst (M - {#(t, w, d)#})) t'" for t'
    using tc c3 C[of t'] by (simp add: s'_def stored_drop_one count_image_remove1[OF mem])
  have "counts_of (M - {#(t, w, d)#}) s'"
    unfolding counts_of_def using nz' a b c by blast
  moreover have "idx s' = idx s" "doc_word_topic s' = doc_word_topic s"
    by (simp_all add: s'_def)
  ultimately show ?thesis using dec by blast
qed

lemma image_mset_set_update:
  assumes fin: "finite P" and agree: "\<And>q. q \<in> P \<Longrightarrow> q \<noteq> p \<Longrightarrow> g q = f q"
  shows "image_mset g (mset_set (insert p P))
           = add_mset (g p) (if p \<in> P then image_mset f (mset_set P) - {#f p#}
                              else image_mset f (mset_set P))"
proof -
  have rest: "image_mset g (mset_set (P - {p})) = image_mset f (mset_set (P - {p}))"
    by (rule image_mset_cong) (use fin agree in auto)
  have ins: "mset_set (insert p P) = add_mset p (mset_set (P - {p}))"
    using fin by (rule mset_set.insert_remove)
  show ?thesis
  proof (cases "p \<in> P")
    case True
    then have "mset_set P = add_mset p (mset_set (P - {p}))"
      using fin by (simp add: mset_set.remove)
    then show ?thesis using True ins rest by simp
  next
    case False
    then have "P - {p} = P" by auto
    then show ?thesis using False ins rest by simp
  qed
qed

lemma finite_positions: "finite (positions ix)"
  by (simp add: positions_def)

lemma assigned_write:
  "assigned (write_doc_word_topic d n t s) = insert (d, n) (assigned s)"
  by (auto simp: assigned_def write_doc_word_topic_def inner_def split: option.splits if_splits)

lemma topic_at_write:
  "topic_at (write_doc_word_topic d n t s) p = (if p = (d, n) then t else topic_at s p)"
  by (cases p) (auto simp: topic_at_def write_doc_word_topic_def inner_def split: option.splits)

lemma idx_write [simp]: "idx (write_doc_word_topic d n t s) = idx s"
  by (simp add: write_doc_word_topic_def)

lemma assignment_mset_cong:
  assumes "idx s' = idx s" "doc_word_topic s' = doc_word_topic s"
  shows "assignment_mset s' = assignment_mset s"
proof -
  have "assigned s' = assigned s"
    by (simp add: assigned_def assms)
  moreover have "triple s' = triple s"
    by (rule ext) (simp add: triple_def topic_at_def assms)
  ultimately show ?thesis
    by (simp add: assignment_mset_def assms)
qed

lemma assignment_mset_write:
  assumes pos: "(d, n) \<in> positions (idx s)"
  shows "assignment_mset (write_doc_word_topic d n t s)
           = add_mset (t, term_at (idx s) (d, n), d)
               (if (d, n) \<in> assigned s then assignment_mset s - {#triple s (d, n)#}
                else assignment_mset s)"
proof -
  let ?P = "positions (idx s) \<inter> assigned s"
  let ?s' = "write_doc_word_topic d n t s"
  have set_eq: "positions (idx s) \<inter> assigned ?s' = insert (d, n) ?P"
    using pos by (auto simp: assigned_write)
  have fin: "finite ?P" by (simp add: finite_positions)
  have agree: "\<And>q. q \<in> ?P \<Longrightarrow> q \<noteq> (d, n) \<Longrightarrow> triple ?s' q = triple s q"
    by (simp add: triple_def topic_at_write)
  have new: "triple ?s' (d, n) = (t, term_at (idx s) (d, n), d)"
    by (simp add: triple_def topic_at_write)
  have "image_mset (triple ?s') (mset_set (insert (d, n) ?P))
          = add_mset (triple ?s' (d, n))
              (if (d, n) \<in> ?P then image_mset (triple s) (mset_set ?P) - {#triple s (d, n)#}
               else image_mset (triple s) (mset_set ?P))"
    using fin agree by (rule image_mset_set_update)
  then show ?thesis
    using pos by (simp add: assignment_mset_def set_eq new)
qed

lemma triple_in_assignment_mset:
  "p \<in> positions (idx s) \<Longrightarrow> p \<in> assigned s \<Longrightarrow> triple s p \<in># assignment_mset s"
  by (simp add: assignment_mset_def finite_positions)

lemma mset_diff_mono: "(A::'a multiset) \<subseteq># B \<Longrightarrow> A - C \<subseteq># B - C"
  by (simp add: subseteq_mset_def diff_le_mono)

lemma counts_of_frame:
  assumes "topic_term_count s' = topic_term_count s" "doc_topic_count s' = doc_topic_count s"
    "topic_count s' = topic_count s"
  shows "counts_of M s' = counts_of M s"
  by (simp add: counts_of_def no_zero_def assms)

lemma sample_topic_eq:
  "sample_topic lib w d s = (t, s2) \<Longrightarrow> \<exists>r. s2 = s\<lparr> rng := r \<rparr>"
  by (auto simp: sample_topic_def split: prod.splits)

lemma assigned_frame:
  "doc_word_topic s' = doc_word_topic s \<Longrightarrow> assigned s' = assigned s"
  by (simp add: assigned_def)

lemma triple_frame:
  "idx s' = idx s \<Longrightarrow> doc_word_topic s' = doc_word_topic s \<Longrightarrow> triple s' p = triple s p"
  by (simp add: triple_def topic_at_def)

lemma increase_counts_frame [simp]:
  "idx (increase_counts t w d s) = idx s"
  "doc_word_topic (increase_counts t w d s) = doc_word_topic s"
  by (simp_all add: increase_counts_def)

lemma write_frame [simp]:
  "topic_term_count (write_doc_word_topic d n t s) = topic_term_count s"
  "doc_topic_count (write_doc_word_topic d n t s) = doc_topic_count s"
  "topic_count (write_doc_word_topic d n t s) = topic_count s"
  by (simp_all add: write_doc_word_topic_def)

text \<open>The effect of storing a drawn topic and increasing its counts.\<close>

lemma consistent_store:
  assumes co: "counts_of M0 s" and sub: "A0 \<subseteq># M0"
    and am: "assignment_mset (write_doc_word_topic d n t s) = add_mset (t, w, d) A0"
  shows "consistent (add_mset (t, w, d) M0) (increase_counts t w d (write_doc_word_topic d n t s))"
proof -
  let ?s1 = "write_doc_word_topic d n t s"
  have "counts_of M0 ?s1"
    using co by (simp add: counts_of_frame[of ?s1 s])
  then have "counts_of (add_mset (t, w, d) M0) (increase_counts t w d ?s1)"
    by (rule counts_of_increase)
  moreover have "assignment_mset (increase_counts t w d ?s1) = add_mset (t, w, d) A0"
    using am by (simp add: assignment_mset_cong[of "increase_counts t w d ?s1" ?s1])
  ultimately show ?thesis
    using sub by (simp add: consistent_def)
qed

lemma consistent_init_step:
  assumes con: "consistent M s" and pos: "(d, n) \<in> positions (idx s)"
    and w: "w = term_at (idx s) (d, n)"
  shows "\<exists>s' t. token_step lib True d w n s = Inr s' \<and> consistent (add_mset (t, w, d) M) s' \<and>
                idx s' = idx s \<and> assigned s' = insert (d, n) (assigned s)"
proof -
  obtain t s2 where sm: "sample_topic lib w d s = (t, s2)"
    by (cases "sample_topic lib w d s")
  then obtain r where s2: "s2 = s\<lparr> rng := r \<rparr>"
    by (auto dest: sample_topic_eq)
  let ?s' = "increase_counts t w d (write_doc_word_topic d n t s2)"
  have step: "token_step lib True d w n s = Inr ?s'"
    using sm by (simp add: token_step_init)
  have co: "counts_of M s2"
    using con by (simp add: consistent_def s2 counts_of_frame[of "s\<lparr> rng := r \<rparr>" s])
  have am2: "assignment_mset s2 = assignment_mset s" "assigned s2 = assigned s"
    "triple s2 (d, n) = triple s (d, n)" "idx s2 = idx s"
    by (simp_all add: s2 assignment_mset_cong[of "s\<lparr> rng := r \<rparr>" s]
        assigned_frame[of "s\<lparr> rng := r \<rparr>" s] triple_frame[of "s\<lparr> rng := r \<rparr>" s])
  define A0 where "A0 = (if (d, n) \<in> assigned s then assignment_mset s - {#triple s (d, n)#}
                         else assignment_mset s)"
  have sub: "A0 \<subseteq># M"
  proof -
    have "A0 \<subseteq># assignment_mset s" by (simp add: A0_def)
    also have "\<dots> \<subseteq># M" using con by (simp add: consistent_def)
    finally show ?thesis .
  qed
  have am: "assignment_mset (write_doc_word_topic d n t s2) = add_mset (t, w, d) A0"
    using assignment_mset_write[of d n s2 t] pos by (simp add: am2 A0_def w)
  have "consistent (add_mset (t, w, d) M) ?s'"
    using co sub am by (rule consistent_store)
  moreover have "idx ?s' = idx s"
    by (simp add: am2)
  moreover have "assigned ?s' = insert (d, n) (assigned s)"
    by (simp add: assigned_frame[of ?s' "write_doc_word_topic d n t s2"] assigned_write am2)
  ultimately show ?thesis using step by blast
qed

lemma consistent_resample_step:
  assumes con: "consistent M s" and pos: "(d, n) \<in> positions (idx s)"
    and asg: "(d, n) \<in> assigned s" and w: "w = term_at (idx s) (d, n)"
  shows "\<exists>s' M'. resample lib (d, w, n) s = Inr s' \<and> consistent M' s' \<and> size M' = size M \<and>
                idx s' = idx s \<and> assigned s' = assigned s"
proof -
  let ?x = "(topic_at s (d, n), w, d)"
  have x: "triple s (d, n) = ?x" by (simp add: triple_def w)
  have xin: "?x \<in># assignment_mset s"
    using triple_in_assignment_mset[OF pos asg] by (simp add: x)
  have sub: "assignment_mset s \<subseteq># M" and co: "counts_of M s"
    using con by (simp_all add: consistent_def)
  from sub xin have xM: "?x \<in># M" by (rule mset_subset_eqD)
  from counts_of_decrease[OF co xM] obtain s1 where
    dec: "decrease_counts (topic_at s (d, n)) w d s = Inr s1" and
    co1: "counts_of (M - {#?x#}) s1" and
    fr1: "idx s1 = idx s" "doc_word_topic s1 = doc_word_topic s"
    by blast
  obtain t s2 where sm: "sample_topic lib w d s1 = (t, s2)"
    by (cases "sample_topic lib w d s1")
  then obtain r where s2: "s2 = s1\<lparr> rng := r \<rparr>"
    by (auto dest: sample_topic_eq)
  let ?s' = "increase_counts t w d (write_doc_word_topic d n t s2)"
  have step: "resample lib (d, w, n) s = Inr ?s'"
    using dec sm by (simp add: resample_def)
  have co2: "counts_of (M - {#?x#}) s2"
    using co1 by (simp add: s2 counts_of_frame[of "s1\<lparr> rng := r \<rparr>" s1])
  have fr2: "idx s2 = idx s" "doc_word_topic s2 = doc_word_topic s"
    by (simp_all add: s2 fr1)
  have am2: "assignment_mset s2 = assignment_mset s" "assigned s2 = assigned s"
    "triple s2 (d, n) = triple s (d, n)"
    using fr2 by (simp_all add: assignment_mset_cong[of s2 s] assigned_frame[of s2 s]
        triple_frame[of s2 s])
  have sub': "assignment_mset s - {#?x#} \<subseteq># M - {#?x#}"
    using sub by (rule mset_diff_mono)
  have am: "assignment_mset (write_doc_word_topic d n t s2)
              = add_mset (t, w, d) (assignment_mset s - {#?x#})"
    using assignment_mset_write[of d n s2 t] pos asg by (simp add: am2 fr2 w x)
  have "consistent (add_mset (t, w, d) (M - {#?x#})) ?s'"
    using co2 sub' am by (rule consistent_store)
  moreover have "size (add_mset (t, w, d) (M - {#?x#})) = size M"
    using xM by (simp add: size_Diff_singleton) (metis size_eq_0_iff_empty empty_iff set_mset_empty not_gr_zero Suc_pred)
  moreover have "idx ?s' = idx s"
    by (simp add: fr2)
  moreover have "assigned ?s' = assigned s"
    using asg
    by (simp add: assigned_frame[of ?s' "write_doc_word_topic d n t s2"] assigned_write am2 insert_absorb)
  ultimately show ?thesis using step by blast
qed

section \<open>Sweeps keep the invariant\<close>

lemma tokens_valid:
  assumes "(d, w, n) \<in> set (tokens ix)"
  shows "(d, n) \<in> positions ix" and "w = term_at ix (d, n)"
proof -
  show "(d, n) \<in> positions ix"
    using assms by (force simp: positions_def)
  show "w = term_at ix (d, n)"
    using assms
    by (auto simp: tokens_def doc_tokens_def term_at_def in_set_enumerate_eq)
qed

lemma consistent_init_steps:
  assumes "consistent M s" "set toks \<subseteq> set (tokens (idx s))"
  shows "\<exists>s' M'. steps lib True toks s = Inr s' \<and> consistent M' s' \<and>
           size M' = size M + length toks \<and> idx s' = idx s \<and>
           assigned s' = assigned s \<union> (\<lambda>(d, w, n). (d, n)) ` set toks"
  using assms
proof (induction toks arbitrary: s M)
  case Nil
  then show ?case by auto
next
  case (Cons tok toks)
  obtain d w n where tok: "tok = (d, w, n)" by (cases tok)
  have mem: "(d, w, n) \<in> set (tokens (idx s))"
    using Cons.prems(2) tok by simp
  from consistent_init_step[OF Cons.prems(1) tokens_valid[OF mem], of lib]
  obtain s1 t where
    st: "token_step lib True d w n s = Inr s1" and
    c1: "consistent (add_mset (t, w, d) M) s1" and
    i1: "idx s1 = idx s" and a1: "assigned s1 = insert (d, n) (assigned s)"
    by blast
  have "set toks \<subseteq> set (tokens (idx s1))"
    using Cons.prems(2) i1 by simp
  from Cons.IH[OF c1 this] obtain s' M' where
    r: "steps lib True toks s1 = Inr s'" "consistent M' s'"
       "size M' = size (add_mset (t, w, d) M) + length toks" "idx s' = idx s1"
       "assigned s' = assigned s1 \<union> (\<lambda>(d, w, n). (d, n)) ` set toks"
    by blast
  have "steps lib True (tok # toks) s = Inr s'"
    using st r(1) by (simp add: tok)
  moreover have "size M' = size M + length (tok # toks)"
    using r(3) by simp
  moreover have "assigned s' = assigned s \<union> (\<lambda>(d, w, n). (d, n)) ` set (tok # toks)"
    using r(5) a1 by (auto simp: tok)
  ultimately show ?case
    using r(2) r(4) i1 by metis
qed

lemma consistent_resample_all:
  assumes "consistent M s" "set toks \<subseteq> set (tokens (idx s))" "positions (idx s) \<subseteq> assigned s"
  shows "\<exists>s' M'. resample_all lib toks s = Inr s' \<and> consistent M' s' \<and>
           size M' = size M \<and> idx s' = idx s \<and> assigned s' = assigned s"
  using assms
proof (induction toks arbitrary: s M)
  case Nil
  then show ?case by auto
next
  case (Cons tok toks)
  obtain d w n where tok: "tok = (d, w, n)" by (cases tok)
  have mem: "(d, w, n) \<in> set (tokens (idx s))"
    using Cons.prems(2) tok by simp
  have asg: "(d, n) \<in> assigned s"
    using tokens_valid(1)[OF mem] Cons.prems(3) by auto
  from consistent_resample_step[OF Cons.prems(1) tokens_valid(1)[OF mem] asg tokens_valid(2)[OF mem], of lib]
  obtain s1 M1 where
    st: "resample lib (d, w, n) s = Inr s1" and
    c1: "consistent M1 s1" and z1: "size M1 = size M" and
    i1: "idx s1 = idx s" and a1: "assigned s1 = assigned s"
    by blast
  have "set toks \<subseteq> set (tokens (idx s1))" "positions (idx s1) \<subseteq> assigned s1"
    using Cons.prems(2,3) i1 a1 by simp_all
  from Cons.IH[OF c1 this] obtain s' M' where
    r: "resample_all lib toks s1 = Inr s'" "consistent M' s'"
       "size M' = size M1" "idx s' = idx s1" "assigned s' = assigned s1"
    by blast
  have "resample_all lib (tok # toks) s = Inr s'"
    using st r(1) by (simp add: tok)
  then show ?case
    using r(2-5) z1 i1 a1 by metis
qed

text \<open>A sampler is ready for an iteration when every occurrence has a stored topic.\<close>

lemma initialize_consistent:
  assumes "consistent M s"
  shows "\<exists>s' M'. initialize lib s = Inr s' \<and> consistent M' s' \<and>
           size M' = size M + length (tokens (idx s)) \<and> idx s' = idx s \<and>
           positions (idx s') \<subseteq> assigned s'"
proof -
  from consistent_init_steps[OF assms subset_refl, of lib] obtain s' M' where
    r: "steps lib True (tokens (idx s)) s = Inr s'" "consistent M' s'"
       "size M' = size M + length (tokens (idx s))" "idx s' = idx s"
       "assigned s' = assigned s \<union> (\<lambda>(d, w, n). (d, n)) ` set (tokens (idx s))"
    by blast
  have "positions (idx s') \<subseteq> assigned s'"
    using r(4,5) by (auto simp: positions_def)
  then show ?thesis
    using r by (auto simp: initialize_def perform_iteration_steps)
qed

lemma iteration_consistent:
  assumes "consistent M s" "positions (idx s) \<subseteq> assigned s"
  shows "\<exists>s' M'. perform_iteration lib False s = Inr s' \<and> consistent M' s' \<and>
           size M' = size M \<and> idx s' = idx s \<and> positions (idx s') \<subseteq> assigned s'"
proof -
  from consistent_resample_all[OF assms(1) subset_refl assms(2), of lib] obtain s' M' where
    r: "resample_all lib (tokens (idx s)) s = Inr s'" "consistent M' s'"
       "size M' = size M" "idx s' = idx s" "assigned s' = assigned s"
    by blast
  then show ?thesis
    using assms(2) by (auto simp: perform_iteration_steps steps_resample_all)
qed

lemma sweeps_consistent:
  assumes "consistent M s" "positions (idx s) \<subseteq> assigned s"
  shows "\<exists>s' M'. sweeps lib k s = Inr s' \<and> consistent M' s' \<and>
           size M' = size M \<and> idx s' = idx s \<and> positions (idx s') \<subseteq> assigned s'"
proof (induction k)
  case 0
  then show ?case using assms by auto
next
  case (Suc k)
  then obtain s1 M1 where
    r: "sweeps lib k s = Inr s1" "consistent M1 s1" "size M1 = size M" "idx s1 = idx s"
       "positions (idx s1) \<subseteq> assigned s1"
    by blast
  from iteration_consistent[OF r(2) r(5), of lib] obtain s' M' where
    "perform_iteration lib False s1 = Inr s'" "consistent M' s'"
    "size M' = size M1" "idx s' = idx s1" "positions (idx s') \<subseteq> assigned s'"
    by blast
  then show ?case
    using r(1,3,4) by (auto simp: )
qed

lemma fresh_consistent: "consistent {#} (fresh_sampler ix k v a b r)"
proof -
  have "assigned (fresh_sampler ix k v a b r) = {}"
    by (simp add: assigned_def fresh_sampler_def inner_def)
  then show ?thesis
    by (simp add: consistent_def counts_of_def no_zero_def assignment_mset_def
        fresh_sampler_def inner_def stored_def)
qed

lemma fresh_sampler_fields [simp]:
  "num_topics (fresh_sampler ix k v a b r) = k"
  "num_words (fresh_sampler ix k v a b r) = v"
  "alpha (fresh_sampler ix k v a b r) = a"
  "beta (fresh_sampler ix k v a b r) = b"
  "rng (fresh_sampler ix k v a b r) = r"
  "topic_term_count (fresh_sampler ix k v a b r) = Map.empty"
  "doc_topic_count (fresh_sampler ix k v a b r) = Map.empty"
  "topic_count (fresh_sampler ix k v a b r) = Map.empty"
  "doc_word_topic (fresh_sampler ix k v a b r) = Map.empty"
  by (simp_all add: fresh_sampler_def)

lemma fresh_idx [simp]: "idx (fresh_sampler ix k v a b r) = ix"
  by (simp add: fresh_sampler_def)

lemma total_topic_count_size:
  assumes "counts_of M s"
  shows "total_topic_count s = size M"
proof -
  from assms have C: "\<And>t. stored (topic_count s) t = count (image_mset fst M) t"
    and nz: "\<And>t. topic_count s t \<noteq> Some 0"
    by (auto simp: counts_of_def no_zero_def)
  have "dom (topic_count s) = set_mset (image_mset fst M)"
  proof (rule set_eqI)
    fix t
    have "t \<in> dom (topic_count s) \<longleftrightarrow> 0 < stored (topic_count s) t"
      using nz[of t] by (auto simp: stored_def split: option.splits)
    then show "t \<in> dom (topic_count s) \<longleftrightarrow> t \<in> set_mset (image_mset fst M)"
      unfolding C by (simp only: count_greater_zero_iff)
  qed
  then have "total_topic_count s = (\<Sum>t\<in>set_mset (image_mset fst M). count (image_mset fst M) t)"
    by (simp add: total_topic_count_def C)
  also have "\<dots> = size (image_mset fst M)"
    by (simp add: size_multiset_overloaded_eq)
  finally show ?thesis by simp
qed

lemma length_doc_terms:
  "length (doc_terms ix d) = (\<Sum>(w, c)\<leftarrow>search_primary_counts ix d. c)"
  by (simp add: doc_terms_def length_concat comp_def case_prod_unfold)

lemma length_tokens:
  "length (tokens ix) = (\<Sum>d\<leftarrow>docs ix. \<Sum>(w, c)\<leftarrow>search_primary_counts ix d. c)"
  by (simp add: tokens_def length_concat comp_def doc_tokens_def length_doc_terms)

lemma length_tokens_corpus_size:
  assumes "index_consistent ix"
  shows "length (tokens ix) = corpus_size ix"
proof -
  have "map (\<lambda>d. \<Sum>(w, c)\<leftarrow>search_primary_counts ix d. c) (docs ix) = map (doc_size ix) (docs ix)"
    using assms by (auto simp: index_consistent_def list_all_iff)
  then have "(\<Sum>d\<leftarrow>docs ix. \<Sum>(w, c)\<leftarrow>search_primary_counts ix d. c)
               = sum_list (map (doc_size ix) (docs ix))"
    by (rule arg_cong)
  then show ?thesis
    by (simp only: length_tokens corpus_size_def)
qed

lemma after_sweeps_consistent:
  assumes "consistent M0 s0"
  shows "\<exists>s M. after_sweeps lib s0 j = Inr s \<and> consistent M s \<and>
         size M = size M0 + length (tokens (idx s0)) \<and> idx s = idx s0 \<and>
         positions (idx s0) \<subseteq> assigned s"
proof -
  from initialize_consistent[OF assms, of lib] obtain s1 M1 where
    r: "initialize lib s0 = Inr s1" "consistent M1 s1"
       "size M1 = size M0 + length (tokens (idx s0))" "idx s1 = idx s0"
       "positions (idx s1) \<subseteq> assigned s1"
    by auto
  from sweeps_consistent[OF r(2) r(5), of lib j] obtain s' M' where
    "sweeps lib j s1 = Inr s'" "consistent M' s'" "size M' = size M1" "idx s' = idx s1"
    "positions (idx s') \<subseteq> assigned s'"
    by blast
  then show ?thesis
    using r by (auto simp: after_sweeps_def)
qed

section \<open>The log likelihood\<close>

lemma likelihood_postings_addends:
  "likelihood_postings ar b s j a ps =
     foldl (accumulate ar) a
       (map (\<lambda>(w, c).
               Plus (mul ar (of_count ar c) (lgam ar (add ar (count_term_in ar w j s) b)))) ps)"
  by (simp add: likelihood_postings_def foldl_map case_prod_unfold)

lemma likelihood_docs_addends:
  "likelihood_docs ar b s j a ds =
     foldl (accumulate ar) a
       (concat (map (\<lambda>d.
          map (\<lambda>(w, c).
                 Plus (mul ar (of_count ar c) (lgam ar (add ar (count_term_in ar w j s) b))))
              (search_primary_counts (idx s) d)) ds))"
  by (induction ds arbitrary: a) (simp_all add: likelihood_docs_def likelihood_postings_addends)

lemma likelihood_topics_addends:
  "foldl (likelihood_topic ar b s) a ts =
     foldl (accumulate ar) a
       (concat (map (\<lambda>t.
          concat (map (\<lambda>d.
             map (\<lambda>(w, c).
                    Plus (mul ar (of_count ar c) (lgam ar (add ar (count_term_in ar w t s) b))))
                 (search_primary_counts (idx s) d))
            (docs (idx s)))
          @ [Minus (lgam ar (add ar (count_topic_in ar t s)
                                (mul ar (of_count ar (num_words s)) b)))]) ts))"
  by (induction ts arbitrary: a) (simp_all add: likelihood_topic_def likelihood_docs_addends)

lemma corpus_likelihood_in_addends:
  "corpus_likelihood_in ar b s =
     foldl (accumulate ar)
       (mul ar (of_count ar (num_topics s))
          (sub ar (lgam ar (mul ar (of_count ar (num_words s)) b))
             (mul ar (of_count ar (num_words s)) (lgam ar b))))
       (likelihood_addends ar b s)"
  unfolding corpus_likelihood_in_def likelihood_addends_def likelihood_topics_addends ..

text \<open>The arithmetic of the driver: sums do not depend on the order.\<close>

lemma lift2_add_assoc: "lift2 (+) (lift2 (+) a b) c = lift2 (+) a (lift2 (+) b c)"
  by (simp add: lift2_def split: option.splits)

lemma lift2_add_0 [simp]: "lift2 (+) a (Some 0) = a" "lift2 (+) (Some 0) a = a"
  by (simp_all add: lift2_def split: option.splits)

lemma lift2_add_sub: "lift2 (-) (lift2 (+) a b) c = lift2 (+) a (lift2 (-) b c)"
  by (simp add: lift2_def split: option.splits)

lemma foldl_lift2_osum:
  "foldl (\<lambda>acc x. lift2 (+) acc (f x)) a xs = lift2 (+) a (osum (map f xs))"
  by (induction xs arbitrary: a) (simp_all add: osum_def lift2_add_assoc)

lemma count_term_exact [simp]: "count_term_in (exact lib) w t s = Some (count_term w t s)"
  by (simp add: count_term_in_def count_term_def exact_def split: option.splits)

lemma count_topic_exact [simp]: "count_topic_in (exact lib) t s = Some (count_topic t s)"
  by (simp add: count_topic_in_def count_topic_def exact_def split: option.splits)

lemma exact_fields [simp]:
  "of_count (exact lib) c = Some (real c)"
  "add (exact lib) = lift2 (+)" "sub (exact lib) = lift2 (-)" "mul (exact lib) = lift2 (*)"
  "lgam (exact lib) (Some x) = lgamma lib x"
  by (simp_all add: exact_def)

lemma lift2_Some [simp]: "lift2 f (Some x) (Some y) = Some (f x y)"
  by (simp add: lift2_def)

lemma likelihood_postings_exact:
  "likelihood_postings (exact lib) (Some (beta s)) s j a ps =
     lift2 (+) a
       (osum (map (\<lambda>(w, c). lift2 (*) (Some (real c)) (lgamma lib (count_term w j s + beta s)))
                  ps))"
  unfolding likelihood_postings_def
  by (simp add: foldl_lift2_osum[symmetric] case_prod_unfold)

lemma likelihood_docs_exact:
  "likelihood_docs (exact lib) (Some (beta s)) s j a ds =
     lift2 (+) a
       (osum (map (\<lambda>d.
          osum (map (\<lambda>(w, c). lift2 (*) (Some (real c)) (lgamma lib (count_term w j s + beta s)))
                    (search_primary_counts (idx s) d))) ds))"
  unfolding likelihood_docs_def likelihood_postings_exact
  by (simp add: foldl_lift2_osum)

lemma likelihood_topic_exact:
  "likelihood_topic (exact lib) (Some (beta s)) s a t =
     lift2 (+) a
       (lift2 (-)
          (osum (map (\<lambda>d.
             osum (map (\<lambda>(w, c).
                lift2 (*) (Some (real c)) (lgamma lib (count_term w t s + beta s)))
                (search_primary_counts (idx s) d)))
             (docs (idx s))))
          (lgamma lib (count_topic t s + real (num_words s) * beta s)))"
  by (simp add: likelihood_topic_def likelihood_docs_exact lift2_add_sub)

lemma likelihood_topics_exact:
  "foldl (likelihood_topic (exact lib) (Some (beta s)) s) a ts =
     lift2 (+) a
       (osum (map (\<lambda>t.
          lift2 (-)
            (osum (map (\<lambda>d.
               osum (map (\<lambda>(w, c).
                  lift2 (*) (Some (real c)) (lgamma lib (count_term w t s + beta s)))
                  (search_primary_counts (idx s) d)))
               (docs (idx s))))
            (lgamma lib (count_topic t s + real (num_words s) * beta s))) ts))"
proof -
  have "likelihood_topic (exact lib) (Some (beta s)) s =
          (\<lambda>acc t. lift2 (+) acc
             (lift2 (-)
                (osum (map (\<lambda>d.
                   osum (map (\<lambda>(w, c).
                      lift2 (*) (Some (real c)) (lgamma lib (count_term w t s + beta s)))
                      (search_primary_counts (idx s) d)))
                   (docs (idx s))))
                (lgamma lib (count_topic t s + real (num_words s) * beta s))))"
    by (intro ext) (rule likelihood_topic_exact)
  then show ?thesis
    by (simp only: foldl_lift2_osum)
qed

text \<open>
  C4: whatever the arithmetic of \<^verbatim>\<open>double\<close> is, \<open>corpus_likelihood\<close> starts from
  \<open>K \<sqdot> (ln\<Gamma>(V\<beta>) - V ln\<Gamma>(\<beta>))\<close> and applies to it, one after the other from left to right,
  the addends in the order topics outermost, documents of \<open>docs()\<close> next, postings
  innermost: it adds \<open>c \<sqdot> ln\<Gamma>(count_term(w, t) + \<beta>)\<close> for each posting \<open>(w, c)\<close> and
  subtracts \<open>ln\<Gamma>(count_topic(t) + V\<beta>)\<close> at the end of topic \<open>t\<close>. In exact arithmetic its
  value is the formula of the specification, and it is not finite when one of the
  \<open>ln\<Gamma>\<close> is not.
\<close>

theorem corpus_likelihood_formula:
  "corpus_likelihood_in ar b s =
     foldl (accumulate ar)
       (mul ar (of_count ar (num_topics s))
          (sub ar (lgam ar (mul ar (of_count ar (num_words s)) b))
             (mul ar (of_count ar (num_words s)) (lgam ar b))))
       (likelihood_addends ar b s) \<and>
   corpus_likelihood lib s = likelihood_formula lib s"
proof
  show "corpus_likelihood_in ar b s =
     foldl (accumulate ar)
       (mul ar (of_count ar (num_topics s))
          (sub ar (lgam ar (mul ar (of_count ar (num_words s)) b))
             (mul ar (of_count ar (num_words s)) (lgam ar b))))
       (likelihood_addends ar b s)"
    by (rule corpus_likelihood_in_addends)
  show "corpus_likelihood lib s = likelihood_formula lib s"
    unfolding corpus_likelihood_def corpus_likelihood_in_def likelihood_topics_exact
      likelihood_formula_def
    by simp
qed

text \<open>
  The order is part of the first statement: on the corpus of one token with one topic, the
  expression computed is \<open>(K (ln\<Gamma>(V\<beta>) - V ln\<Gamma>(\<beta>)) + 1 ln\<Gamma>(0 + \<beta>)) - ln\<Gamma>(0 + V\<beta>)\<close>,
  and the same addends taken in the reverse order give another expression.
\<close>

lemma accumulation_order_observable:
  "corpus_likelihood_in symbolic Beta (fresh_sampler one_token_index 1 1 a b r)
     = Sub (Add (Mul (Count 1) (Sub (Lgam (Mul (Count 1) Beta)) (Mul (Count 1) (Lgam Beta))))
                (Mul (Count 1) (Lgam (Add (Count 0) Beta))))
           (Lgam (Add (Count 0) (Mul (Count 1) Beta))) \<and>
   foldl (accumulate symbolic)
     (Mul (Count 1) (Sub (Lgam (Mul (Count 1) Beta)) (Mul (Count 1) (Lgam Beta))))
     (rev (likelihood_addends symbolic Beta (fresh_sampler one_token_index 1 1 a b r)))
     = Add (Sub (Mul (Count 1) (Sub (Lgam (Mul (Count 1) Beta)) (Mul (Count 1) (Lgam Beta))))
                (Lgam (Add (Count 0) (Mul (Count 1) Beta))))
           (Mul (Count 1) (Lgam (Add (Count 0) Beta)))"
  by (simp add: corpus_likelihood_in_def likelihood_topic_def likelihood_docs_def
      likelihood_postings_def likelihood_addends_def count_term_in_def count_topic_in_def
      symbolic_def one_token_index_def fresh_sampler_def)

text \<open>Where \<open>ln\<Gamma>(\<beta>)\<close> is not finite, as at \<open>\<beta> = 0\<close>, the log likelihood is not finite.\<close>

lemma lift2_None: "lift2 f a None = None" "lift2 f None a = None"
  by (simp_all add: lift2_def split: option.splits)

lemma corpus_likelihood_at_pole:
  assumes "lgamma lib (beta s) = None"
  shows "corpus_likelihood lib s = None"
  unfolding corpus_likelihood_def corpus_likelihood_in_def likelihood_topics_exact
  using assms by (simp add: lift2_None)

section \<open>The driver\<close>

lemma ratio_le_iff:
  "ratio_le l l' eps =
     (case l of
        None \<Rightarrow> False
      | Some x \<Rightarrow> (case l' of None \<Rightarrow> False | Some y \<Rightarrow> x \<noteq> 0 \<and> \<bar>y - x\<bar> / \<bar>x\<bar> \<le> eps))"
  by (simp add: ratio_le_def ratio_def fdiv_def abs_minus_commute split: option.splits)

lemma after_sweeps_Suc:
  "after_sweeps lib s0 (Suc j) =
     (case after_sweeps lib s0 j of Inl e \<Rightarrow> Inl e | Inr s \<Rightarrow> perform_iteration lib False s)"
  by (simp add: after_sweeps_def split: sum.splits)

lemma after_sweeps_0: "after_sweeps lib s0 0 = initialize lib s0"
  by (simp add: after_sweeps_def split: sum.splits)

text \<open>
  The loop of \<open>run\<close>, entered at iteration counter \<open>i\<close> with the sampler that \<open>i\<close>
  iterations have produced, stops at the first later iteration that passes the test.
\<close>

lemma run_loop_characterisation:
  assumes con: "consistent M0 s0" and "i \<le> n" "after_sweeps lib s0 i = Inr s"
  shows "run_loop lib i n eps (corpus_likelihood lib s) s =
           (case filter (converges_at lib s0 eps) [Suc i..<Suc n] of
              [] \<Rightarrow> with_status Exhausted (after_sweeps lib s0 n)
            | j # js \<Rightarrow> with_status Converged (after_sweeps lib s0 j))"
  using assms(2,3)
proof (induction "n - i" arbitrary: i s)
  case 0
  then have "i = n" by simp
  then show ?case
    using "0.prems" by (subst run_loop.simps) (simp add: with_status_def)
next
  case (Suc m)
  then have lt: "i < n" by simp
  obtain s' where s': "after_sweeps lib s0 (Suc i) = Inr s'"
    using after_sweeps_consistent[OF con, of lib "Suc i"] by auto
  then have it: "perform_iteration lib False s = Inr s'"
    using Suc.prems(2) by (simp add: after_sweeps_Suc)
  have L: "likelihood_after lib s0 i = corpus_likelihood lib s"
    "likelihood_after lib s0 (Suc i) = corpus_likelihood lib s'"
    using Suc.prems(2) s' by (simp_all add: likelihood_after_def)
  have conv: "ratio_le (corpus_likelihood lib s) (corpus_likelihood lib s') eps
                \<longleftrightarrow> converges_at lib s0 eps (Suc i)"
    by (simp add: ratio_le_iff converges_at_def L cong: option.case_cong)
  have upt: "[Suc i..<Suc n] = Suc i # [Suc (Suc i)..<Suc n]"
    using lt by (simp add: upt_conv_Cons)
  show ?case
  proof (cases "converges_at lib s0 eps (Suc i)")
    case True
    then show ?thesis
      using lt it conv s' by (subst run_loop.simps) (simp add: upt with_status_def del: upt_Suc)
  next
    case False
    have "m = n - Suc i" "Suc i \<le> n" using Suc.hyps(2) lt by simp_all
    from Suc.hyps(1)[OF this s'] False show ?thesis
      using lt it conv by (subst run_loop.simps) (simp add: upt del: upt_Suc)
  qed
qed

lemma run_characterisation:
  assumes con: "consistent M0 s0"
  shows "run lib n eps s0 =
           (case filter (converges_at lib s0 eps) [1..<Suc n] of
              [] \<Rightarrow> with_status Exhausted (after_sweeps lib s0 n)
            | j # js \<Rightarrow> with_status Converged (after_sweeps lib s0 j))"
proof -
  obtain s1 where s1: "after_sweeps lib s0 0 = Inr s1"
    using after_sweeps_consistent[OF con, of lib 0] by blast
  then have init: "initialize lib s0 = Inr s1"
    by (simp add: after_sweeps_0)
  show ?thesis
    using run_loop_characterisation[OF con le0 s1, of n eps] init
    by (simp add: run_def del: upt_Suc)
qed

lemma run_consistent:
  assumes con: "consistent M0 s0"
  shows "\<exists>st s M. run lib n eps s0 = Inr (st, s) \<and> consistent M s \<and>
            size M = size M0 + length (tokens (idx s0)) \<and> idx s = idx s0"
proof (cases "filter (converges_at lib s0 eps) [1..<Suc n]")
  case Nil
  then show ?thesis
    using run_characterisation[OF con, of lib n eps] after_sweeps_consistent[OF con, of lib n]
    by (auto simp: with_status_def)
next
  case (Cons j js)
  then show ?thesis
    using run_characterisation[OF con, of lib n eps] after_sweeps_consistent[OF con, of lib j]
    by (auto simp: with_status_def)
qed

lemma runs_consistent:
  assumes "consistent M0 s0"
  shows "\<exists>s M. runs lib calls s0 = Inr s \<and> consistent M s \<and> idx s = idx s0 \<and>
           size M = size M0 + length calls * length (tokens (idx s0))"
  using assms
proof (induction calls arbitrary: s0 M0)
  case Nil
  then show ?case by auto
next
  case (Cons call calls)
  from run_consistent[OF Cons.prems, of lib "fst call" "snd call"] obtain st s1 M1 where
    r: "run lib (fst call) (snd call) s0 = Inr (st, s1)" "consistent M1 s1" "idx s1 = idx s0"
       "size M1 = size M0 + length (tokens (idx s0))"
    by blast
  from Cons.IH[OF r(2)] obtain s M where
    "runs lib calls s1 = Inr s" "consistent M s" "idx s = idx s1"
    "size M = size M1 + length calls * length (tokens (idx s1))"
    by blast
  then show ?case
    using r(1,3,4) by auto
qed


lemma beta_decrease: "decrease_counts t w d s = Inr s' \<Longrightarrow> beta s' = beta s"
  by (erule decrease_counts_InrE) simp

lemma beta_token_step: "token_step lib init d w n s = Inr s' \<Longrightarrow> beta s' = beta s"
  by (auto simp: token_step_def read_doc_word_topic_def Let_def sample_topic_def
      increase_counts_def write_doc_word_topic_def
      split: prod.splits sum.splits if_splits dest!: beta_decrease)

lemma beta_steps: "steps lib init toks s = Inr s' \<Longrightarrow> beta s' = beta s"
  by (induction toks arbitrary: s) (auto split: sum.splits dest: beta_token_step)

lemma beta_sweeps: "sweeps lib k s = Inr s' \<Longrightarrow> beta s' = beta s"
  by (induction k arbitrary: s')
    (auto simp: perform_iteration_steps split: sum.splits dest: beta_steps)

lemma beta_after_sweeps: "after_sweeps lib s0 k = Inr s \<Longrightarrow> beta s = beta s0"
  by (auto simp: after_sweeps_def initialize_def perform_iteration_steps
      split: sum.splits dest!: beta_steps beta_sweeps)

text \<open>
  When \<open>ln\<Gamma>(\<beta>)\<close> is not finite (\<open>\<beta> = 0\<close>, which the constructor accepts), no likelihood
  is finite, no ratio passes the test, and \<open>run\<close> makes all its iterations.
\<close>

lemma run_exhausted_at_pole:
  assumes "consistent M0 s0" and "lgamma lib (beta s0) = None"
  shows "run lib n eps s0 = with_status Exhausted (after_sweeps lib s0 n)"
proof -
  have "likelihood_after lib s0 k = None" for k
    using assms(2)
    by (auto simp: likelihood_after_def corpus_likelihood_at_pole beta_after_sweeps
        split: sum.splits)
  then have "filter (converges_at lib s0 eps) [1..<Suc n] = []"
    by (simp add: converges_at_def filter_empty_conv)
  then show ?thesis
    using run_characterisation[OF assms(1), of lib n eps] by (simp del: upt_Suc)
qed

section \<open>The total of the topic counts\<close>

text \<open>
  The claim that the topic counts sum to the token count at all times after an
  initialization sweep fails on a sampler that is run again: \<open>run\<close> starts with an
  initialization sweep that only increments. Whatever the library, after a first \<open>run\<close> on
  scenario A (6 tokens) the initialization sweep of a second \<open>run\<close> leaves the sum at 12.
\<close>

theorem topic_count_total_after_second_initialization:
  "\<forall>lib. \<exists>st s1 s2.
     run lib 3 (1 / 1000000) (fresh_sampler scenario_index 2 3 (1 / 10) (1 / 100) (seed lib 42))
       = Inr (st, s1) \<and>
     initialize lib s1 = Inr s2 \<and>
     total_topic_count s2 = 12 \<and>
     corpus_size scenario_index = 6"
proof
  fix lib :: "'r stdlib"
  let ?s0 = "fresh_sampler scenario_index 2 3 (1 / 10) (1 / 100) (seed lib 42)"
  have h: "index_consistent scenario_index"
    by (simp add: index_consistent_def scenario_index_def)
  have n: "corpus_size scenario_index = 6"
    by (simp add: corpus_size_def scenario_index_def)
  from run_consistent[OF fresh_consistent, of lib 3 "1 / 1000000" scenario_index 2 3 "1 / 10"
      "1 / 100" "seed lib 42"]
  obtain st s1 M1 where
    r: "run lib 3 (1 / 1000000) ?s0 = Inr (st, s1)" "consistent M1 s1"
       "size M1 = length (tokens scenario_index)" "idx s1 = scenario_index"
    by auto
  from initialize_consistent[OF r(2), of lib] obtain s2 M2 where
    q: "initialize lib s1 = Inr s2" "consistent M2 s2"
       "size M2 = size M1 + length (tokens (idx s1))"
    by blast
  have "total_topic_count s2 = size M2"
    using q(2) by (simp add: consistent_def total_topic_count_size)
  then have "total_topic_count s2 = 12"
    using r(3,4) q(3) length_tokens_corpus_size[OF h] n by simp
  then show "\<exists>st s1 s2. run lib 3 (1 / 1000000) ?s0 = Inr (st, s1) \<and>
     initialize lib s1 = Inr s2 \<and> total_topic_count s2 = 12 \<and> corpus_size scenario_index = 6"
    using r(1) q(1) n by blast
qed

text \<open>
  C2 (amended): on an index whose \<open>doc_size\<close> is the sum of the frequencies of the
  document, the sum of \<open>topic_count\<close> over all topics is the token count of the corpus
  times the number of calls of \<open>run\<close> made on the sampler, the current one included: this
  holds after the initialization sweep of the current call, after any number \<open>j\<close> of its
  iterations, and after the first \<open>m\<close> resample steps of the next iteration, none of which
  throws. In the first call on a new sampler (\<open>calls\<close> empty) the sum is the token count of
  the corpus.
\<close>

theorem topic_count_total_per_run:
  assumes "index_consistent ix"
  shows "\<exists>s0. runs lib calls (fresh_sampler ix k v a b r) = Inr s0 \<and>
           (\<exists>s. (case after_sweeps lib s0 j of
                    Inl e \<Rightarrow> Inl e
                  | Inr s1 \<Rightarrow> resample_all lib (take m (tokens ix)) s1) = Inr s \<and>
                 total_topic_count s = (length calls + 1) * corpus_size ix)"
proof -
  from runs_consistent[OF fresh_consistent, of lib calls ix k v a b r] obtain s0 M0 where
    p: "runs lib calls (fresh_sampler ix k v a b r) = Inr s0" "consistent M0 s0" "idx s0 = ix"
       "size M0 = length calls * length (tokens ix)"
    by auto
  from after_sweeps_consistent[OF p(2), of lib j] p(3) obtain s1 M1 where
    r: "after_sweeps lib s0 j = Inr s1" "consistent M1 s1"
       "size M1 = size M0 + length (tokens ix)" "idx s1 = ix" "positions ix \<subseteq> assigned s1"
    by auto
  have "set (take m (tokens ix)) \<subseteq> set (tokens (idx s1))"
    by (simp add: r(4) set_take_subset)
  from consistent_resample_all[OF r(2) this, of lib] r(4,5) obtain s M where
    q: "resample_all lib (take m (tokens ix)) s1 = Inr s" "consistent M s" "size M = size M1"
    by auto
  have "total_topic_count s = size M"
    using q(2) by (simp add: consistent_def total_topic_count_size)
  then have "total_topic_count s = (length calls + 1) * corpus_size ix"
    using p(4) r(3) q(3) length_tokens_corpus_size[OF assms] by simp
  then show ?thesis
    using p(1) r(1) q(1) by auto
qed

theorem topic_count_total_per_run_witness:
  "\<forall>lib. index_consistent scenario_index \<and>
     (\<exists>s0. runs lib [(3, 1 / 1000000)]
              (fresh_sampler scenario_index 2 3 (1 / 10) (1 / 100) (seed lib 42)) = Inr s0 \<and>
        (\<exists>s. (case after_sweeps lib s0 2 of
                 Inl e \<Rightarrow> Inl e
               | Inr s1 \<Rightarrow> resample_all lib (take 4 (tokens scenario_index)) s1) = Inr s \<and>
              total_topic_count s = 12))"
proof
  fix lib :: "'r stdlib"
  have h: "index_consistent scenario_index"
    by (simp add: index_consistent_def scenario_index_def)
  have "corpus_size scenario_index = 6"
    by (simp add: corpus_size_def scenario_index_def)
  with topic_count_total_per_run[OF h, where lib = lib and calls = "[(3, 1 / 1000000)]"
      and k = 2 and v = 3 and a = "1 / 10" and b = "1 / 100" and r = "seed lib 42"
      and j = 2 and m = 4] h
  show "index_consistent scenario_index \<and>
     (\<exists>s0. runs lib [(3, 1 / 1000000)]
              (fresh_sampler scenario_index 2 3 (1 / 10) (1 / 100) (seed lib 42)) = Inr s0 \<and>
        (\<exists>s. (case after_sweeps lib s0 2 of
                 Inl e \<Rightarrow> Inl e
               | Inr s1 \<Rightarrow> resample_all lib (take 4 (tokens scenario_index)) s1) = Inr s \<and>
              total_topic_count s = 12))"
    by simp
qed



section \<open>Construction\<close>

text \<open>
  The constructor hands the index and \<open>K\<close> to \<open>lda_model\<close>, stores \<open>\<alpha>\<close> and \<open>\<beta>\<close> as
  they come and seeds the engine; it compares nothing. With a base class that rejects
  \<open>K = 0\<close>, \<open>V = 0\<close> and \<open>D = 0\<close>, and whatever the library, the corpus of scenario A with
  \<open>\<alpha> = 0\<close> and \<open>\<beta> = -1\<close> is accepted.
\<close>

theorem ctor_accepts_nonpositive_alpha_beta:
  "\<forall>lib. lda_gibbs_ctor spec_lda_model lib 42 scenario_index 2 0 (- 1)
     = Inr (fresh_sampler scenario_index 2 3 0 (- 1) (seed lib 42))"
  by (simp add: lda_gibbs_ctor_def spec_lda_model_def scenario_index_def)

text \<open>
  C9 (amended): the constructor of \<open>lda_gibbs\<close> fails exactly when the constructor of the
  base class \<open>lda_model\<close> fails on the index and \<open>K\<close>. Whatever \<open>\<alpha>\<close> and \<open>\<beta>\<close> are, also
  zero or negative, it otherwise yields a sampler that stores them, with the engine seeded
  from the random device and the four tables empty.
\<close>

theorem ctor_fails_only_with_lda_model:
  "(\<exists>s. lda_gibbs_ctor lda_model lib dev ix k a b = Inr s \<and> alpha s = a \<and> beta s = b \<and>
         rng s = seed lib dev \<and> topic_term_count s = Map.empty \<and>
         doc_topic_count s = Map.empty \<and> topic_count s = Map.empty \<and>
         doc_word_topic s = Map.empty)
   \<longleftrightarrow> (\<exists>m. lda_model ix k = Inr m)"
  by (auto simp: lda_gibbs_ctor_def fresh_sampler_def split: sum.splits)

section \<open>The first draws of the engine\<close>

lemma length_mt_fill [simp]: "length (mt_fill x i k) = k"
  by (induction k arbitrary: x i) simp_all

lemma mt_fill_nth: "n < k \<Longrightarrow> mt_fill x i k ! n = mt_at x i n"
proof (induction k arbitrary: x i n)
  case 0
  then show ?case by simp
next
  case (Suc k)
  then show ?case by (cases n) simp_all
qed

lemma mt_gen_rand_keep: "n < k \<Longrightarrow> mt_gen_rand k xs ! n = xs ! n"
proof (induction k xs rule: mt_gen_rand.induct)
  case (1 k xs)
  show ?case
  proof (cases "k < 312")
    case True
    with 1 show ?thesis by (subst mt_gen_rand.simps) simp
  next
    case False
    then show ?thesis by (subst mt_gen_rand.simps) simp
  qed
qed

lemma mt_gen_rand_first:
  "length xs = 312 \<Longrightarrow> mt_gen_rand 0 xs ! 0 = mt_mix (xs ! 0) (xs ! 1) (xs ! 156)"
  by (subst mt_gen_rand.simps) (simp add: mt_gen_rand_keep)

lemma mt_first_output:
  "fst (mt_next (mt_seed sd)) =
     mt_temper (mt_mix (mt_at (of_nat sd) 1 0) (mt_at (of_nat sd) 1 1) (mt_at (of_nat sd) 1 156))"
  by (simp add: mt_next_def mt_seed_def mt_gen_rand_first mt_fill_nth del: mt_at.simps)

lemma first_output_1: "fst (mt_next (mt_seed 1)) = 2469588189546311528"
  unfolding mt_first_output by code_simp

lemma first_output_2: "fst (mt_next (mt_seed 2)) = 16668552215174154828"
  unfolding mt_first_output by code_simp

lemma canonical_less_1: "canonical z < 1"
  by (simp add: canonical_def Let_def)

lemma lower_bound_0: "lower_bound cp p first 0 = first"
  by (subst lower_bound.simps) simp

lemma lower_bound_1:
  "lower_bound cp p first (Suc 0) =
     (if (case cp ! first of None \<Rightarrow> False | Some c \<Rightarrow> c < p) then first + 1 else first)"
  by (subst lower_bound.simps) (simp add: lower_bound_0)

lemma lower_bound_2:
  "lower_bound cp p first (Suc (Suc 0)) =
     (if (case cp ! (first + 1) of None \<Rightarrow> False | Some c \<Rightarrow> c < p) then first + 2
      else lower_bound cp p first (Suc 0))"
  by (subst lower_bound.simps) (simp add: lower_bound_0)

lemma lower_bound_two:
  assumes "p < 1"
  shows "lower_bound [Some (1 / 2), Some 1] p 0 (Suc (Suc 0)) = (if 1 / 2 < p then 1 else 0)"
  using assms by (simp add: lower_bound_2 lower_bound_1)

lemma lower_bound_nan:
  assumes "p < 1"
  shows "lower_bound [None, Some 1] p 0 (Suc (Suc 0)) = 0"
  using assms by (simp add: lower_bound_2 lower_bound_1)

lemma cumulative_two_equal: "c \<noteq> 0 \<Longrightarrow> cumulative [Some c, Some c] = [Some (1 / 2), Some 1]"
  by (simp add: cumulative_def lift2_def fdiv_def Let_def)

lemma cumulative_two_zero: "cumulative [Some 0, Some 0] = [None, Some 1]"
  by (simp add: cumulative_def lift2_def fdiv_def Let_def)

lemma gnu_draw_two_equal:
  assumes "c \<noteq> 0"
  shows "fst (gnu_discrete_distribution other [Some c, Some c] st)
           = (if 1 / 2 < canonical (fst (mt_next st)) then 1 else 0)"
  using assms
  by (simp add: gnu_discrete_distribution_def lift2_def cumulative_two_equal
      lower_bound_two canonical_less_1 split: prod.splits)

lemma gnu_draw_two_zero:
  "fst (gnu_discrete_distribution other [Some 0, Some 0] st) = 0"
  by (simp add: gnu_discrete_distribution_def lift2_def cumulative_two_zero
      lower_bound_nan canonical_less_1 split: prod.splits)

lemma bit_width_first_1: "bit_width 2469588189546311528 = 62"
  by (simp add: bit_width.simps)

lemma bit_width_first_2: "bit_width 16668552215174154828 = 64"
  by (simp add: bit_width.simps)

lemma rounded_first_1: "round_to_double 2469588189546311528 = 2469588189546311680"
  by (simp add: round_to_double_def bit_width_first_1 Let_def)

lemma rounded_first_2: "round_to_double 16668552215174154828 = 16668552215174154240"
  by (simp add: round_to_double_def bit_width_first_2 Let_def)

lemma canonical_first_1: "\<not> 1 / 2 < canonical (fst (mt_next (mt_seed 1)))"
  unfolding first_output_1 canonical_def by (simp add: rounded_first_1)

lemma canonical_first_2: "1 / 2 < canonical (fst (mt_next (mt_seed 2)))"
  unfolding first_output_2 canonical_def by (simp add: rounded_first_2)

lemma gnu_draw_two_zero_state:
  "snd (gnu_discrete_distribution other [Some 0, Some 0] st) = snd (mt_next st)"
  by (simp add: gnu_discrete_distribution_def lift2_def split: prod.splits)

section \<open>The draw on zero weights\<close>

lemma weights_zero_alpha:
  "weights 0 0 zero_alpha_sampler = [Some 0, Some 0]"
  by (simp add: weights_def zero_alpha_sampler_def fresh_sampler_def compute_probability_def
      compute_term_topic_probability_def compute_doc_topic_probability_def count_term_def
      count_topic_def count_doc_def count_doc_size_def fdiv_def scenario_index_def
      upt_rec[of 0] upt_rec[of 1] upt_rec[of "Suc 0"])

lemma map_const_replicate:
  "(\<And>x. x \<in> set xs \<Longrightarrow> f x = c) \<Longrightarrow> map f xs = replicate (length xs) c"
  by (induction xs) auto

text \<open>
  C8 (amended): \<open>sample_topic\<close> has no branch for weights that are all zero. It hands the
  \<open>K\<close> zero weights to \<open>std::discrete_distribution\<close> like any others: the topic it
  returns and the engine state it leaves are those of the library's draw on \<open>K\<close> zeros,
  and neither the count tables nor the assignments change.
\<close>

theorem sample_topic_zero_weights:
  assumes "list_all (\<lambda>x. x = Some 0) (weights w d s)"
  shows "sample_topic lib w d s =
           (fst (discrete_distribution lib (replicate (num_topics s) (Some 0)) (rng s)),
            s\<lparr> rng := snd (discrete_distribution lib (replicate (num_topics s) (Some 0)) (rng s)) \<rparr>)"
proof -
  have len: "length (weights w d s) = num_topics s"
    by (simp add: weights_def)
  have "map (\<lambda>x. x) (weights w d s) = replicate (length (weights w d s)) (Some 0)"
    using assms by (intro map_const_replicate) (simp add: list_all_iff)
  then have "weights w d s = replicate (num_topics s) (Some 0)"
    by (simp add: len)
  then show ?thesis
    by (simp add: sample_topic_def split: prod.splits)
qed

theorem sample_topic_zero_weights_witness:
  "\<forall>other lg.
     list_all (\<lambda>x. x = Some 0) (weights 0 0 zero_alpha_sampler) \<and>
     sample_topic (gnu_lib other lg) 0 0 zero_alpha_sampler
       = (0, zero_alpha_sampler\<lparr> rng := snd (mt_next (mt_seed 2)) \<rparr>)"
proof (intro allI)
  fix other lg
  have h: "list_all (\<lambda>x. x = Some 0) (weights 0 0 zero_alpha_sampler)"
    by (simp add: weights_zero_alpha)
  have "num_topics zero_alpha_sampler = Suc (Suc 0)" "rng zero_alpha_sampler = mt_seed 2"
    by (simp_all add: zero_alpha_sampler_def)
  with sample_topic_zero_weights[OF h, of "gnu_lib other lg"] h
  show "list_all (\<lambda>x. x = Some 0) (weights 0 0 zero_alpha_sampler) \<and>
     sample_topic (gnu_lib other lg) 0 0 zero_alpha_sampler
       = (0, zero_alpha_sampler\<lparr> rng := snd (mt_next (mt_seed 2)) \<rparr>)"
    by (simp add: gnu_lib_def gnu_draw_two_zero gnu_draw_two_zero_state)
qed

text \<open>
  With \<open>\<alpha> = 0\<close> the first token of a document has all weights zero. The GNU library, which
  divides the weights by their zero sum, answers index 0 on them whatever the engine
  draws, so the kernel returns topic 0; a uniform draw of the same library in the same
  engine state (equal weights) returns topic 1.
\<close>

theorem zero_weights_not_uniform:
  "\<forall>other lg.
     weights 0 0 zero_alpha_sampler = [Some 0, Some 0] \<and>
     fst (sample_topic (gnu_lib other lg) 0 0 zero_alpha_sampler) = 0 \<and>
     fst (discrete_distribution (gnu_lib other lg)
            (replicate (num_topics zero_alpha_sampler) (Some 1)) (rng zero_alpha_sampler)) = 1"
proof (intro allI)
  fix other lg
  have w: "weights 0 0 zero_alpha_sampler = [Some 0, Some 0]"
    by (rule weights_zero_alpha)
  have f: "num_topics zero_alpha_sampler = Suc (Suc 0)" "rng zero_alpha_sampler = mt_seed 2"
    by (simp_all add: zero_alpha_sampler_def)
  have d: "discrete_distribution (gnu_lib other lg) = gnu_discrete_distribution other"
    by (simp add: gnu_lib_def)
  have "fst (sample_topic (gnu_lib other lg) 0 0 zero_alpha_sampler)
          = fst (gnu_discrete_distribution other [Some 0, Some 0] (mt_seed 2))"
    by (simp add: sample_topic_def w d f split: prod.splits)
  then have "fst (sample_topic (gnu_lib other lg) 0 0 zero_alpha_sampler) = 0"
    by (simp only: gnu_draw_two_zero)
  moreover have "fst (gnu_discrete_distribution other [Some 1, Some 1] (mt_seed 2)) = 1"
    using gnu_draw_two_equal[of 1 other "mt_seed 2"] canonical_first_2 by simp
  then have "fst (discrete_distribution (gnu_lib other lg)
            (replicate (num_topics zero_alpha_sampler) (Some 1)) (rng zero_alpha_sampler)) = 1"
    by (simp add: f d)
  ultimately show "weights 0 0 zero_alpha_sampler = [Some 0, Some 0] \<and>
     fst (sample_topic (gnu_lib other lg) 0 0 zero_alpha_sampler) = 0 \<and>
     fst (discrete_distribution (gnu_lib other lg)
            (replicate (num_topics zero_alpha_sampler) (Some 1)) (rng zero_alpha_sampler)) = 1"
    using w by simp
qed

section \<open>Reproducibility\<close>

lemma observable_eq_iff:
  "observable s1 = observable s2 \<longleftrightarrow>
     idx s1 = idx s2 \<and> num_topics s1 = num_topics s2 \<and> num_words s1 = num_words s2 \<and>
     alpha s1 = alpha s2 \<and> beta s1 = beta s2 \<and>
     topic_term_count s1 = topic_term_count s2 \<and> doc_topic_count s1 = doc_topic_count s2 \<and>
     topic_count s1 = topic_count s2 \<and> doc_word_topic s1 = doc_word_topic s2"
  by (simp add: observable_def)

lemma term_topic_probability_observable:
  "observable s1 = observable s2 \<Longrightarrow>
     compute_term_topic_probability w j s1 = compute_term_topic_probability w j s2"
  by (simp add: observable_eq_iff compute_term_topic_probability_def count_term_def
      count_topic_def)

lemma doc_topic_probability_observable:
  "observable s1 = observable s2 \<Longrightarrow>
     compute_doc_topic_probability d j s1 = compute_doc_topic_probability d j s2"
  by (simp add: observable_eq_iff compute_doc_topic_probability_def count_doc_def
      count_doc_size_def)

lemma weights_observable:
  assumes "observable s1 = observable s2"
  shows "weights w d s1 = weights w d s2"
proof -
  have "num_topics s1 = num_topics s2"
    using assms by (simp add: observable_eq_iff)
  then show ?thesis
    by (simp only: weights_def compute_probability_def
        term_topic_probability_observable[OF assms] doc_topic_probability_observable[OF assms])
qed

lemma read_observable:
  assumes "observable s1 = observable s2"
  shows "fst (read_doc_word_topic i n s1) = fst (read_doc_word_topic i n s2)"
    and "observable (snd (read_doc_word_topic i n s1))
           = observable (snd (read_doc_word_topic i n s2))"
    and "rng (snd (read_doc_word_topic i n s1)) = rng s1"
  using assms by (simp_all add: observable_eq_iff read_doc_word_topic_def Let_def)

lemma decrease_observable:
  assumes "observable s1 = observable s2"
  shows "rel_sum (=) (\<lambda>t1 t2. observable t1 = observable t2 \<and> rng t1 = rng s1 \<and> rng t2 = rng s2)
           (decrease_counts t w d s1) (decrease_counts t w d s2)"
  using assms
  by (simp add: observable_eq_iff decrease_counts_def split: option.splits)

lemma store_observable:
  assumes "observable s1 = observable s2"
  shows "observable (increase_counts t w d (write_doc_word_topic i n t (s1\<lparr> rng := r1 \<rparr>)))
           = observable (increase_counts t w d (write_doc_word_topic i n t (s2\<lparr> rng := r2 \<rparr>)))"
  using assms
  by (simp add: observable_eq_iff increase_counts_def write_doc_word_topic_def)

lemma store_rng:
  "rng (increase_counts t w d (write_doc_word_topic i n t (s\<lparr> rng := r \<rparr>))) = r"
  by (simp add: increase_counts_def write_doc_word_topic_def)

lemma sample_topic_sim:
  assumes "\<forall>ws r. discrete_distribution lib1 ws (h r)
                    = map_prod id h (discrete_distribution lib2 ws r)"
      and "observable s1 = observable s2" and "rng s1 = h (rng s2)"
  shows "\<exists>t r2. sample_topic lib1 w d s1 = (t, s1\<lparr> rng := h r2 \<rparr>) \<and>
                sample_topic lib2 w d s2 = (t, s2\<lparr> rng := r2 \<rparr>)"
proof -
  obtain t r2 where d2: "discrete_distribution lib2 (weights w d s2) (rng s2) = (t, r2)"
    by (cases "discrete_distribution lib2 (weights w d s2) (rng s2)")
  have "discrete_distribution lib1 (weights w d s1) (rng s1) = (t, h r2)"
    using assms(1) d2 by (simp add: weights_observable[OF assms(2)] assms(3))
  then show ?thesis
    using d2 by (intro exI[of _ t] exI[of _ r2]) (simp add: sample_topic_def)
qed

lemma token_step_sim:
  assumes draws: "\<forall>ws r. discrete_distribution lib1 ws (h r)
                    = map_prod id h (discrete_distribution lib2 ws r)"
      and obs: "observable s1 = observable s2" and eng: "rng s1 = h (rng s2)"
  shows "rel_sum (=) (\<lambda>t1 t2. observable t1 = observable t2 \<and> rng t1 = h (rng t2))
           (token_step lib1 init i w n s1) (token_step lib2 init i w n s2)"
proof -
  obtain old a1 where r1: "read_doc_word_topic i n s1 = (old, a1)"
    by (cases "read_doc_word_topic i n s1")
  obtain old2 a2 where r2: "read_doc_word_topic i n s2 = (old2, a2)"
    by (cases "read_doc_word_topic i n s2")
  from read_observable[OF obs, of i n] r1 r2 eng
  have a: "old2 = old" "observable a1 = observable a2" "rng a1 = h (rng a2)"
    using read_observable(3)[of s2 s2 i n] by simp_all
  have "rel_sum (=) (\<lambda>t1 t2. observable t1 = observable t2 \<and> rng t1 = h (rng t2))
          (if \<not> init then decrease_counts old w i a1 else Inr a1)
          (if \<not> init then decrease_counts old w i a2 else Inr a2)"
    using decrease_observable[OF a(2), of old w i] a(2,3)
    by (auto elim!: rel_sum.cases)
  then show ?thesis
  proof cases
    case (1 e1 e2)
    then show ?thesis
      by (simp add: token_step_def r1 r2 a(1))
  next
    case (2 b1 b2)
    from sample_topic_sim[OF draws 2(3)[THEN conjunct1] 2(3)[THEN conjunct2], of w i]
    obtain t q where
      s: "sample_topic lib1 w i b1 = (t, b1\<lparr> rng := h q \<rparr>)"
         "sample_topic lib2 w i b2 = (t, b2\<lparr> rng := q \<rparr>)"
      by blast
    show ?thesis
      using 2(1,2) s store_observable[OF 2(3)[THEN conjunct1], of t w i i n "h q" q]
      by (simp add: token_step_def r1 r2 a(1) store_rng)
  qed
qed

lemma steps_sim:
  assumes draws: "\<forall>ws r. discrete_distribution lib1 ws (h r)
                    = map_prod id h (discrete_distribution lib2 ws r)"
  shows "observable s1 = observable s2 \<Longrightarrow> rng s1 = h (rng s2) \<Longrightarrow>
         rel_sum (=) (\<lambda>t1 t2. observable t1 = observable t2 \<and> rng t1 = h (rng t2))
           (steps lib1 init toks s1) (steps lib2 init toks s2)"
proof (induction toks arbitrary: s1 s2)
  case Nil
  then show ?case by simp
next
  case (Cons tok toks)
  from token_step_sim[OF draws Cons.prems, of init "fst tok" "fst (snd tok)" "snd (snd tok)"]
  show ?case
  proof cases
    case (1 e1 e2)
    then show ?thesis by simp
  next
    case (2 t1 t2)
    then show ?thesis
      using Cons.IH[of t1 t2] by simp
  qed
qed

lemma perform_iteration_sim:
  assumes draws: "\<forall>ws r. discrete_distribution lib1 ws (h r)
                    = map_prod id h (discrete_distribution lib2 ws r)"
      and obs: "observable s1 = observable s2" and eng: "rng s1 = h (rng s2)"
  shows "rel_sum (=) (\<lambda>t1 t2. observable t1 = observable t2 \<and> rng t1 = h (rng t2))
           (perform_iteration lib1 init s1) (perform_iteration lib2 init s2)"
proof -
  have "idx s1 = idx s2"
    using obs by (simp add: observable_eq_iff)
  then show ?thesis
    using steps_sim[OF draws obs eng, of init "tokens (idx s2)"]
    by (simp add: perform_iteration_steps)
qed

lemma corpus_likelihood_observable:
  assumes "lgamma lib1 = lgamma lib2" and "observable s1 = observable s2"
  shows "corpus_likelihood lib1 s1 = corpus_likelihood lib2 s2"
proof -
  have e: "exact lib1 = exact lib2"
    unfolding exact_def assms(1) by (rule refl)
  have f: "idx s1 = idx s2" "num_topics s1 = num_topics s2" "num_words s1 = num_words s2"
    "beta s1 = beta s2" "topic_term_count s1 = topic_term_count s2"
    "topic_count s1 = topic_count s2"
    using assms(2) by (simp_all add: observable_eq_iff)
  have ct: "count_term_in ar w j s1 = count_term_in ar w j s2" for ar :: "real option arith" and w j
    by (simp add: count_term_in_def f)
  have cp: "count_topic_in ar j s1 = count_topic_in ar j s2" for ar :: "real option arith" and j
    by (simp add: count_topic_in_def f)
  have "likelihood_topic ar b s1 = likelihood_topic ar b s2" for ar :: "real option arith" and b
    by (intro ext)
      (simp only: likelihood_topic_def likelihood_docs_def likelihood_postings_def ct cp f)
  then show ?thesis
    by (simp only: corpus_likelihood_def corpus_likelihood_in_def e f)
qed

lemma sweeps_sim:
  assumes draws: "\<forall>ws r. discrete_distribution lib1 ws (h r)
                    = map_prod id h (discrete_distribution lib2 ws r)"
      and obs: "observable s1 = observable s2" and eng: "rng s1 = h (rng s2)"
  shows "rel_sum (=) (\<lambda>t1 t2. observable t1 = observable t2 \<and> rng t1 = h (rng t2))
           (sweeps lib1 k s1) (sweeps lib2 k s2)"
proof (induction k)
  case 0
  then show ?case using obs eng by simp
next
  case (Suc k)
  from Suc.IH show ?case
  proof cases
    case (1 e1 e2)
    then show ?thesis by simp
  next
    case (2 t1 t2)
    then show ?thesis
      using perform_iteration_sim[OF draws, of t1 t2 False] by simp
  qed
qed

lemma after_sweeps_sim:
  assumes draws: "\<forall>ws r. discrete_distribution lib1 ws (h r)
                    = map_prod id h (discrete_distribution lib2 ws r)"
      and obs: "observable s1 = observable s2" and eng: "rng s1 = h (rng s2)"
  shows "rel_sum (=) (\<lambda>t1 t2. observable t1 = observable t2 \<and> rng t1 = h (rng t2))
           (after_sweeps lib1 s1 k) (after_sweeps lib2 s2 k)"
  using perform_iteration_sim[OF draws obs eng, of True]
proof cases
  case (1 e1 e2)
  then show ?thesis by (simp add: after_sweeps_def initialize_def)
next
  case (2 t1 t2)
  then show ?thesis
    using sweeps_sim[OF draws, of t1 t2 k] by (simp add: after_sweeps_def initialize_def)
qed

lemma likelihood_after_sim:
  assumes lg: "lgamma lib1 = lgamma lib2"
      and draws: "\<forall>ws r. discrete_distribution lib1 ws (h r)
                    = map_prod id h (discrete_distribution lib2 ws r)"
      and obs: "observable s1 = observable s2" and eng: "rng s1 = h (rng s2)"
  shows "likelihood_after lib1 s1 k = likelihood_after lib2 s2 k"
  using after_sweeps_sim[OF draws obs eng, of k]
proof cases
  case (1 e1 e2)
  then show ?thesis by (simp add: likelihood_after_def)
next
  case (2 t1 t2)
  then show ?thesis
    using corpus_likelihood_observable[OF lg, of t1 t2] by (simp add: likelihood_after_def)
qed

lemma run_loop_sim:
  assumes lg: "lgamma lib1 = lgamma lib2"
      and draws: "\<forall>ws r. discrete_distribution lib1 ws (h r)
                    = map_prod id h (discrete_distribution lib2 ws r)"
  shows "observable s1 = observable s2 \<Longrightarrow> rng s1 = h (rng s2) \<Longrightarrow>
         observed (run_loop lib1 i n eps l s1) = observed (run_loop lib2 i n eps l s2)"
proof (induction "n - i" arbitrary: i l s1 s2)
  case 0
  then show ?case
    by (simp add: run_loop.simps[of _ i n] observed_def)
next
  case (Suc m)
  then have lt: "i < n" by simp
  from perform_iteration_sim[OF draws Suc.prems, of False] show ?case
  proof cases
    case (1 e1 e2)
    then show ?thesis
      using lt by (simp add: run_loop.simps[of _ i n] observed_def)
  next
    case (2 t1 t2)
    have c: "corpus_likelihood lib1 t1 = corpus_likelihood lib2 t2"
      using corpus_likelihood_observable[OF lg, of t1 t2] 2(3) by simp
    have m: "m = n - (i + 1)"
      using Suc.hyps(2) by simp
    show ?thesis
    proof (cases "ratio_le l (corpus_likelihood lib2 t2) eps")
      case True
      then show ?thesis
        using lt 2 c by (simp add: run_loop.simps[of _ i n] observed_def)
    next
      case False
      then show ?thesis
        using lt 2(1,2) c Suc.hyps(1)[OF m 2(3)[THEN conjunct1] 2(3)[THEN conjunct2],
            of "corpus_likelihood lib2 t2"]
        by (simp add: run_loop.simps[of _ i n])
    qed
  qed
qed

lemma run_sim:
  assumes lg: "lgamma lib1 = lgamma lib2"
      and draws: "\<forall>ws r. discrete_distribution lib1 ws (h r)
                    = map_prod id h (discrete_distribution lib2 ws r)"
      and obs: "observable s1 = observable s2" and eng: "rng s1 = h (rng s2)"
  shows "observed (run lib1 n eps s1) = observed (run lib2 n eps s2)"
  using perform_iteration_sim[OF draws obs eng, of True]
proof cases
  case (1 e1 e2)
  then show ?thesis by (simp add: run_def initialize_def observed_def)
next
  case (2 t1 t2)
  have "corpus_likelihood lib1 t1 = corpus_likelihood lib2 t2"
    using corpus_likelihood_observable[OF lg, of t1 t2] 2(3) by simp
  then show ?thesis
    using 2(1,2) run_loop_sim[OF lg draws 2(3)[THEN conjunct1] 2(3)[THEN conjunct2],
        of 0 n eps "corpus_likelihood lib2 t2"]
    by (simp add: run_def initialize_def)
qed

text \<open>
  C5 (amended): the constructor takes no seed; the engine is seeded with the value of
  \<open>std::random_device\<close>, and nothing but the draws made from the engine enters the count
  tables, the topic assignments or the log likelihoods. Take two constructions from the
  same index, \<open>K\<close>, \<open>\<alpha>\<close> and \<open>\<beta>\<close>, with libraries that agree on \<^verbatim>\<open>std::lgamma\<close>, and
  an abstraction \<open>h\<close> from the engine states of the second to those of the first that
  maps seed to seed and commutes with every draw (the two draws return the same index).
  Then \<open>run\<close> has the same outcome in both (error or status, count tables and topic
  assignments), and the log likelihoods \<open>L\<^sub>0, \<dots>, L\<^sub>n\<close> are the same. With the same
  library on both sides and \<open>h\<close> the identity, this is: two constructions whose random
  devices seed the engine to the same state give the same assignments and likelihoods.
\<close>

theorem run_depends_on_engine_through_draws_only:
  assumes "lgamma lib1 = lgamma lib2"
      and "seed lib1 dev1 = h (seed lib2 dev2)"
      and "\<forall>ws r. discrete_distribution lib1 ws (h r)
                    = map_prod id h (discrete_distribution lib2 ws r)"
  shows "observed (constructed_run lda_model lib1 dev1 ix k a b n eps)
           = observed (constructed_run lda_model lib2 dev2 ix k a b n eps) \<and>
         constructed_likelihoods lda_model lib1 dev1 ix k a b n
           = constructed_likelihoods lda_model lib2 dev2 ix k a b n"
proof (cases "lda_model ix k")
  case (Inl e)
  then show ?thesis
    by (simp add: constructed_run_def constructed_likelihoods_def lda_gibbs_ctor_def
        observed_def)
next
  case (Inr m)
  obtain ix' k' v where m: "m = (ix', k', v)"
    by (cases m)
  let ?s1 = "fresh_sampler ix' k' v a b (seed lib1 dev1)"
  let ?s2 = "fresh_sampler ix' k' v a b (seed lib2 dev2)"
  have obs: "observable ?s1 = observable ?s2"
    by (simp add: observable_def fresh_sampler_def)
  have eng: "rng ?s1 = h (rng ?s2)"
    using assms(2) by (simp add: fresh_sampler_def)
  have "map (likelihood_after lib1 ?s1) [0..<Suc n] = map (likelihood_after lib2 ?s2) [0..<Suc n]"
    by (intro map_cong refl likelihood_after_sim[OF assms(1,3) obs eng])
  then show ?thesis
    using run_sim[OF assms(1,3) obs eng, of n eps]
    by (simp only: constructed_run_def constructed_likelihoods_def lda_gibbs_ctor_def Inr m
        sum.case prod.case)
qed

theorem run_depends_on_engine_through_draws_only_witness:
  "\<forall>lib.
     lgamma lib = lgamma (counting lib) \<and>
     seed lib 42 = fst (seed (counting lib) 42) \<and>
     (\<forall>ws r. discrete_distribution lib ws (fst r)
                = map_prod id fst (discrete_distribution (counting lib) ws r)) \<and>
     observed (constructed_run spec_lda_model lib 42 scenario_index 2 (1 / 10) (1 / 100) 200
                 (1 / 1000000))
       = observed (constructed_run spec_lda_model (counting lib) 42 scenario_index 2 (1 / 10)
                     (1 / 100) 200 (1 / 1000000)) \<and>
     constructed_likelihoods spec_lda_model lib 42 scenario_index 2 (1 / 10) (1 / 100) 200
       = constructed_likelihoods spec_lda_model (counting lib) 42 scenario_index 2 (1 / 10)
           (1 / 100) 200"
proof
  fix lib :: "'r stdlib"
  have h: "lgamma lib = lgamma (counting lib)" "seed lib 42 = fst (seed (counting lib) 42)"
    "\<forall>ws r. discrete_distribution lib ws (fst r)
                = map_prod id fst (discrete_distribution (counting lib) ws r)"
    by (simp_all add: counting_def split: prod.splits)
  from run_depends_on_engine_through_draws_only[OF h, of spec_lda_model scenario_index 2
      "1 / 10" "1 / 100" 200 "1 / 1000000"] h
  show "lgamma lib = lgamma (counting lib) \<and>
     seed lib 42 = fst (seed (counting lib) 42) \<and>
     (\<forall>ws r. discrete_distribution lib ws (fst r)
                = map_prod id fst (discrete_distribution (counting lib) ws r)) \<and>
     observed (constructed_run spec_lda_model lib 42 scenario_index 2 (1 / 10) (1 / 100) 200
                 (1 / 1000000))
       = observed (constructed_run spec_lda_model (counting lib) 42 scenario_index 2 (1 / 10)
                     (1 / 100) 200 (1 / 1000000)) \<and>
     constructed_likelihoods spec_lda_model lib 42 scenario_index 2 (1 / 10) (1 / 100) 200
       = constructed_likelihoods spec_lda_model (counting lib) 42 scenario_index 2 (1 / 10)
           (1 / 100) 200"
    by blast
qed

lemma one_token_tokens: "tokens one_token_index = [(0, 0, 0)]"
  by (simp add: tokens_def doc_tokens_def doc_terms_def one_token_index_def enumerate_eq_zip)

lemma one_token_weights:
  "weights 0 0 (fresh_sampler one_token_index 2 (Suc 0) (1 / 10) (1 / 100) r)
     = [Some (1 / 12), Some (1 / 12)]"
  by (simp add: weights_def compute_probability_def
      compute_term_topic_probability_def compute_doc_topic_probability_def count_term_def
      count_topic_def count_doc_def count_doc_size_def fdiv_def one_token_index_def
      upt_rec[of 0] upt_rec[of 1] upt_rec[of "Suc 0"])

lemma one_token_final_topic:
  "final_topic (constructed_run spec_lda_model (gnu_lib other lg) dev one_token_index 2 (1 / 10)
                  (1 / 100) 0 eps) 0 0
     = Some (if 1 / 2 < canonical (fst (mt_next (mt_seed dev))) then 1 else 0)"
proof -
  let ?s = "fresh_sampler one_token_index 2 (Suc 0) (1 / 10) (1 / 100) (mt_seed dev)"
  have c: "lda_gibbs_ctor spec_lda_model (gnu_lib other lg) dev one_token_index 2 (1 / 10) (1 / 100)
             = Inr ?s"
    by (simp add: lda_gibbs_ctor_def spec_lda_model_def one_token_index_def gnu_lib_def)
  obtain t r where d: "gnu_discrete_distribution other [Some (1 / 12), Some (1 / 12)] (mt_seed dev) = (t, r)"
    by (cases "gnu_discrete_distribution other [Some (1 / 12), Some (1 / 12)] (mt_seed dev)")
  have t: "t = (if 1 / 2 < canonical (fst (mt_next (mt_seed dev))) then 1 else 0)"
    using gnu_draw_two_equal[of "1 / 12" other "mt_seed dev"] d by simp
  have "initialize (gnu_lib other lg) ?s
          = Inr (increase_counts t 0 0 (write_doc_word_topic 0 0 t (?s\<lparr> rng := r \<rparr>)))"
    by (simp add: initialize_def perform_iteration_steps one_token_tokens token_step_init
        sample_topic_def one_token_weights gnu_lib_def d)
  then have "final_topic (constructed_run spec_lda_model (gnu_lib other lg) dev one_token_index 2
                (1 / 10) (1 / 100) 0 eps) 0 0 = Some t"
    by (simp add: constructed_run_def c run_def run_loop.simps final_topic_def
        write_doc_word_topic_def increase_counts_def inner_def)
  then show ?thesis
    by (simp only: t)
qed

text \<open>
  A caller cannot fix the seed. Two constructions with the same index, \<open>K = 2\<close>,
  \<open>\<alpha> = 0.1\<close> and \<open>\<beta> = 0.01\<close>, whose random devices return 1 and 2: after \<open>run\<close> the one
  token of the corpus has topic 0 in the first sampler and topic 1 in the second (the first
  outputs of the engine are 2469588189546311528 and 16668552215174154828, below and above
  \<open>2\<^sup>6\<^sup>3\<close>).
\<close>

theorem different_entropy_different_assignment:
  "\<forall>other lg.
     final_topic (constructed_run spec_lda_model (gnu_lib other lg) 1 one_token_index 2 (1 / 10)
                    (1 / 100) 0 (1 / 1000000)) 0 0 = Some 0 \<and>
     final_topic (constructed_run spec_lda_model (gnu_lib other lg) 2 one_token_index 2 (1 / 10)
                    (1 / 100) 0 (1 / 1000000)) 0 0 = Some 1"
  using canonical_first_1 canonical_first_2
  by (simp only: one_token_final_topic if_True if_False simp_thms)

end
